theory Spec2Isabelle
  imports Main
begin

section \<open>JavaScript values used by the two scripts\<close>

text \<open>
  A JavaScript number as the scripts use it: an integer-valued double, \<open>NaN\<close>,
  \<open>Infinity\<close> or \<open>-Infinity\<close>. Ratings, deltas and epoch milliseconds are whole numbers;
  \<open>NaN\<close> and the infinities are kept because \<open>parseInt\<close> and date parsing produce them
  and arithmetic and comparisons propagate them. \<open>-0\<close> is identified with \<open>0\<close>. Equality
  on this type is identity of values (\<open>NaN\<close> is the same value as \<open>NaN\<close>).
\<close>

datatype jsnum = NaN | Num int | PosInf | NegInf

text \<open>The number of binary digits of a positive integer.\<close>

function bitLength :: "int \<Rightarrow> nat" where
  "bitLength n = (if n \<le> 0 then 0 else Suc (bitLength (n div 2)))"
  by pat_completeness auto
termination
  by (relation "measure nat") auto

declare bitLength.simps [simp del]

text \<open>
  The double nearest to a non-negative integer \<open>a\<close>: \<open>a\<close> itself below \<open>2^53\<close>, otherwise \<open>a\<close>
  rounded to 53 significant binary digits, a tie going to the even one.
\<close>

definition roundMag :: "int \<Rightarrow> int" where
  "roundMag a =
     (if a < 2 ^ 53 then a
      else
        let e = bitLength a - 53;
            q = a div 2 ^ e;
            r = a mod 2 ^ e;
            half = 2 ^ (e - 1);
            q' = (if half < r \<or> (r = half \<and> odd q) then q + 1 else q)
        in q' * 2 ^ e)"

text \<open>
  The Number value of an integer: the nearest double, and an infinity from \<open>2^1024\<close> on.
\<close>

definition roundDouble :: "int \<Rightarrow> jsnum" where
  "roundDouble n =
     (if \<bar>n\<bar> < 2 ^ 53 then Num n
      else
        let v = roundMag \<bar>n\<bar> in
        if 2 ^ 1024 \<le> v then (if n < 0 then NegInf else PosInf)
        else Num (if n < 0 then - v else v))"

text \<open>The binary \<open>-\<close> on numbers: the exact difference, rounded to a double.\<close>

fun sub :: "jsnum \<Rightarrow> jsnum \<Rightarrow> jsnum" where
  "sub NaN _ = NaN"
| "sub _ NaN = NaN"
| "sub (Num a) (Num b) = roundDouble (a - b)"
| "sub PosInf PosInf = NaN"
| "sub NegInf NegInf = NaN"
| "sub PosInf _ = PosInf"
| "sub NegInf _ = NegInf"
| "sub (Num a) PosInf = NegInf"
| "sub (Num a) NegInf = PosInf"

text \<open>\<open>a <= b\<close> and \<open>a >= b\<close>: false as soon as one side is \<open>NaN\<close>.\<close>

fun le_js :: "jsnum \<Rightarrow> jsnum \<Rightarrow> bool" where
  "le_js NaN _ = False"
| "le_js _ NaN = False"
| "le_js NegInf _ = True"
| "le_js _ PosInf = True"
| "le_js (Num a) (Num b) = (a \<le> b)"
| "le_js _ _ = False"

definition ge_js :: "jsnum \<Rightarrow> jsnum \<Rightarrow> bool" where
  "ge_js a b = le_js b a"

text \<open>
  The value of a field of a parsed JSON record, when it is a scalar: absent
  (\<open>undefined\<close>), \<open>null\<close>, a boolean, a number written as an integer \<open>n\<close> in the JSON
  text (its value is the double \<open>roundDouble n\<close>) or a string of ASCII characters.
  Arrays, objects and numbers with a fraction in a rating field are outside this model.
\<close>

datatype jsval = JUndefined | JNull | JBool bool | JNum int | JStr string

text \<open>Truthiness, as \<open>||\<close> and \<open>!\<close> test it.\<close>

fun truthy :: "jsval \<Rightarrow> bool" where
  "truthy JUndefined = False"
| "truthy JNull = False"
| "truthy (JBool b) = b"
| "truthy (JNum n) = (n \<noteq> 0)"
| "truthy (JStr s) = (s \<noteq> [])"

text \<open>\<open>a || b\<close>.\<close>

definition or_js :: "jsval \<Rightarrow> jsval \<Rightarrow> jsval" where
  "or_js a b = (if truthy a then a else b)"

subsection \<open>\<open>parseInt\<close> with no radix argument\<close>

text \<open>The ASCII white space and line terminators that \<open>parseInt\<close> skips at the start.\<close>

definition isWhiteSpace :: "char \<Rightarrow> bool" where
  "isWhiteSpace c = (c \<in> set [CHR 0x09, CHR 0x0A, CHR 0x0B, CHR 0x0C, CHR 0x0D, CHR '' ''])"

text \<open>The value of a character as a digit (\<open>0-9\<close>, \<open>a-z\<close>, \<open>A-Z\<close>), if it is one.\<close>

definition digitVal :: "char \<Rightarrow> nat option" where
  "digitVal c =
     (let n = (of_char c :: nat) in
      if 48 \<le> n \<and> n \<le> 57 then Some (n - 48)
      else if 97 \<le> n \<and> n \<le> 122 then Some (n - 87)
      else if 65 \<le> n \<and> n \<le> 90 then Some (n - 55)
      else None)"

definition isRadixDigit :: "nat \<Rightarrow> char \<Rightarrow> bool" where
  "isRadixDigit R c = (case digitVal c of None \<Rightarrow> False | Some d \<Rightarrow> d < R)"

text \<open>The integer written by a string of digits in radix \<open>R\<close>.\<close>

definition digitsValue :: "nat \<Rightarrow> string \<Rightarrow> int" where
  "digitsValue R Z =
     foldl (\<lambda>acc c. acc * int R + (case digitVal c of None \<Rightarrow> 0 | Some d \<Rightarrow> int d)) 0 Z"

text \<open>
  \<open>parseInt\<close> on a string: skip leading white space, read an optional sign, switch to
  radix 16 after a \<open>0x\<close> or \<open>0X\<close> prefix, take the longest prefix of digits; no digit at
  all gives \<open>NaN\<close>, otherwise the result is the integer written, as a double. (For more
  than twenty decimal digits the language lets an implementation ignore the digits
  after the twentieth; the model rounds the exact integer, as Node does.)
\<close>

definition parseIntStr :: "string \<Rightarrow> jsnum" where
  "parseIntStr inputString =
     (let S = dropWhile isWhiteSpace inputString;
          sign = (if S \<noteq> [] \<and> hd S = CHR ''-'' then (-1::int) else 1);
          S1 = (if S \<noteq> [] \<and> (hd S = CHR ''+'' \<or> hd S = CHR ''-'') then tl S else S);
          hex = (take 2 S1 = ''0x'' \<or> take 2 S1 = ''0X'');
          R = (if hex then 16 else 10);
          S2 = (if hex then drop 2 S1 else S1);
          Z = takeWhile (isRadixDigit R) S2
      in if Z = [] then NaN else roundDouble (sign * digitsValue R Z))"

text \<open>The number of decimal digits of a non-negative integer.\<close>

function decLength :: "int \<Rightarrow> nat" where
  "decLength n = (if n < 10 then 1 else Suc (decLength (n div 10)))"
  by pat_completeness auto
termination
  by (relation "measure nat") auto

declare decLength.simps [simp del]

text \<open>
  The digits that \<open>String\<close> prints for a double \<open>v\<close> from \<open>10^21\<close> on, as the integer they
  write: the shortest digit string, of \<open>k\<close> digits followed by zeros, that names no other
  double than \<open>v\<close>; of two such the nearer to \<open>v\<close>, of two equally near the even one.
  Seventeen digits always suffice.
\<close>

fun shortestValue :: "nat \<Rightarrow> nat \<Rightarrow> int \<Rightarrow> int" where
  "shortestValue 0 k v = v"
| "shortestValue (Suc fuel) k v =
     (let p = 10 ^ (decLength v - k);
          lo = (v div p) * p;
          hi = lo + p
      in if roundMag lo = v \<and> roundMag hi = v then
           (if v - lo < hi - v then lo
            else if hi - v < v - lo then hi
            else if even (lo div p) then lo else hi)
         else if roundMag lo = v then lo
         else if roundMag hi = v then hi
         else shortestValue fuel (Suc k) v)"

text \<open>
  \<open>String(v)\<close> for a double \<open>v\<close> that is an integer. Below \<open>10^21\<close> in magnitude: the
  decimal digits of the integer, after a minus sign when it is negative.
\<close>

definition digitChar :: "int \<Rightarrow> char" where
  "digitChar d = ''0123456789'' ! nat d"

function numberDigits :: "int \<Rightarrow> string" where
  "numberDigits n =
     (if n < 10 then [digitChar n] else numberDigits (n div 10) @ [digitChar (n mod 10)])"
  by pat_completeness auto
termination
  by (relation "measure nat") auto

declare numberDigits.simps [simp del]

text \<open>
  From \<open>10^21\<close> on: exponent notation, the first of the shortest digits, then a point and
  the other digits if there are any, then \<open>e+\<close> and the exponent (\<open>1e+21\<close>, \<open>1.5e+21\<close>).
\<close>

definition exponentString :: "int \<Rightarrow> string" where
  "exponentString v =
     (let ds = rev (dropWhile (\<lambda>c. c = CHR ''0'') (rev (numberDigits (shortestValue 17 1 v))))
      in hd ds # (if tl ds = [] then [] else CHR ''.'' # tl ds)
           @ ''e+'' @ numberDigits (int (decLength v) - 1))"

definition numberToString :: "int \<Rightarrow> string" where
  "numberToString d =
     (let a = \<bar>d\<bar>;
          digits = (if a < 10 ^ 21 then numberDigits a else exponentString a)
      in if d < 0 then CHR ''-'' # digits else digits)"

text \<open>
  \<open>parseInt\<close> on a value: the value is converted to a string first, and the string is
  read. \<open>Infinity\<close>, \<open>NaN\<close>, \<open>undefined\<close>, \<open>null\<close>, \<open>true\<close> and \<open>false\<close> print as words
  that start with no digit.
\<close>

fun parseInt :: "jsval \<Rightarrow> jsnum" where
  "parseInt (JNum n) =
     (case roundDouble n of
        Num d \<Rightarrow> parseIntStr (numberToString d)
      | _ \<Rightarrow> NaN)"
| "parseInt (JStr s) = parseIntStr s"
| "parseInt JUndefined = NaN"
| "parseInt JNull = NaN"
| "parseInt (JBool b) = NaN"

section \<open>Data model\<close>

text \<open>
  A raw player record \<open>p\<close> of a population snapshot. \<open>p.fc\<close> and \<open>p.name\<close> are
  strings when present (\<open>None\<close> is an absent field); \<open>p.ev\<close> and \<open>p.vr\<close> are arbitrary
  scalars.
\<close>

record raw_player =
  p_fc :: "string option"
  p_name :: "string option"
  p_ev :: jsval
  p_vr :: jsval

text \<open>\<open>const currentVR = parseInt(p.ev || p.vr || 0)\<close> (both scripts).\<close>

definition currentVR :: "raw_player \<Rightarrow> jsnum" where
  "currentVR p = parseInt (or_js (or_js (p_ev p) (p_vr p)) (JNum 0))"

text \<open>One element of \<open>vr_history\<close>.\<close>

record entry =
  date :: string
  vrChange :: jsnum
  totalVR :: jsnum

record stats =
  last24Hours :: jsnum
  lastWeek :: jsnum
  lastMonth :: jsnum

text \<open>
  A value of the field \<open>discord\<close>: a string, or the member of \<open>Object.prototype\<close> of the
  given name (a function, or the prototype itself for \<open>__proto__\<close>), which is what
  \<open>discordCache[fc]\<close> yields for a key that the cache does not hold but every object
  inherits.
\<close>

datatype dvalue = DStr string | DMember string

text \<open>
  A player record as the scripts hold it in \<open>playerMap\<close> and write it to a file.
  \<open>vrStats\<close> and \<open>discord\<close> are absent (\<open>None\<close>) on records written by the backfill.
\<close>

record player =
  name :: string
  fc :: string
  vr_history :: "entry list"
  vrStats :: "stats option"
  discord :: "dvalue option"

text \<open>
  A JavaScript \<open>Map\<close> with string keys: an association list in insertion order.
  \<open>map_set\<close> replaces the value of a key that is present, at its place, and appends a
  new key at the end; \<open>map_of\<close> is \<open>get\<close>.
\<close>

type_synonym 'v jsmap = "(string \<times> 'v) list"

fun map_set :: "'v jsmap \<Rightarrow> string \<Rightarrow> 'v \<Rightarrow> 'v jsmap" where
  "map_set [] k v = [(k, v)]"
| "map_set ((k', v') # m) k v = (if k' = k then (k, v) # m else (k', v') # map_set m k v)"

type_synonym playerMap = "player jsmap"

section \<open>History reconstruction\<close>

text \<open>\<open>p.name || d\<close>: an absent or empty name gives \<open>d\<close>.\<close>

definition name_or :: "string option \<Rightarrow> string \<Rightarrow> string" where
  "name_or n d = (case n of None \<Rightarrow> d | Some s \<Rightarrow> if s = [] then d else s)"

text \<open>
  The body of \<open>playersInRow.forEach\<close> in \<open>scripts/generate_stats.js\<close>, for one raw
  record \<open>p\<close> of the row dated \<open>rowDate\<close>. The record of \<open>p.fc\<close> is created when the key
  is new, then mutated in place, which is one \<open>map_set\<close> here.
\<close>

definition live_step :: "string \<Rightarrow> playerMap \<Rightarrow> raw_player \<Rightarrow> playerMap" where
  "live_step rowDate playerMap p =
     (case p_fc p of
        None \<Rightarrow> playerMap
      | Some k \<Rightarrow>
          if k = [] then playerMap
          else
            let entry0 = (case map_of playerMap k of
                            None \<Rightarrow> \<lparr>name = name_or (p_name p) ''Unknown'', fc = k,
                                     vr_history = [], vrStats = None,
                                     discord = Some (DStr ''unknown'')\<rparr>
                          | Some e \<Rightarrow> e);
                entry1 = entry0\<lparr>name := name_or (p_name p) (name entry0)\<rparr>;
                cur = currentVR p;
                exists = list_ex (\<lambda>h. date h = rowDate) (vr_history entry1)
            in if \<not> exists then
                 let lastTotal = (if length (vr_history entry1) > 0
                                  then totalVR (last (vr_history entry1)) else cur)
                 in map_set playerMap k
                      (entry1\<lparr>vr_history := vr_history entry1 @
                         [\<lparr>date = rowDate, vrChange = sub cur lastTotal, totalVR = cur\<rparr>]\<rparr>)
               else map_set playerMap k entry1)"

text \<open>
  The body of \<open>for (const p of players)\<close> in the backfill script, for the snapshot dated
  \<open>date\<close>: the same steps, with no test for an existing timestamp (``push every single
  update'') and no \<open>discord\<close> field on a new record.
\<close>

definition backfill_step :: "string \<Rightarrow> playerMap \<Rightarrow> raw_player \<Rightarrow> playerMap" where
  "backfill_step d playerMap p =
     (case p_fc p of
        None \<Rightarrow> playerMap
      | Some k \<Rightarrow>
          if k = [] then playerMap
          else
            let entry0 = (case map_of playerMap k of
                            None \<Rightarrow> \<lparr>name = name_or (p_name p) ''Unknown'', fc = k,
                                     vr_history = [], vrStats = None, discord = None\<rparr>
                          | Some e \<Rightarrow> e);
                entry1 = entry0\<lparr>name := name_or (p_name p) (name entry0)\<rparr>;
                cur = currentVR p;
                prevVR = (case vr_history entry1 of [] \<Rightarrow> cur | _ # _ \<Rightarrow> totalVR (last (vr_history entry1)))
            in map_set playerMap k
                 (entry1\<lparr>vr_history := vr_history entry1 @
                    [\<lparr>date = d, vrChange = sub cur prevVR, totalVR = cur\<rparr>]\<rparr>))"

subsection \<open>Sorting with a comparator\<close>

text \<open>
  \<open>Array.prototype.sort\<close> with a comparator \<open>c\<close>: a stable sort that puts \<open>a\<close> before
  \<open>b\<close> when \<open>c a b\<close> is negative. A comparator result of \<open>NaN\<close> counts as \<open>0\<close> (the
  elements keep their order), as the language defines it. Where the comparator is no
  consistent order (dates that do not parse), the language leaves the resulting order
  to the implementation; the model then gives the order of an insertion sort, and
  no statement below depends on it.
\<close>

fun negative :: "jsnum \<Rightarrow> bool" where
  "negative (Num n) = (n < 0)"
| "negative NegInf = True"
| "negative NaN = False"
| "negative PosInf = False"

fun insert_cmp :: "('a \<Rightarrow> 'a \<Rightarrow> jsnum) \<Rightarrow> 'a \<Rightarrow> 'a list \<Rightarrow> 'a list" where
  "insert_cmp c x [] = [x]"
| "insert_cmp c x (y # ys) = (if negative (c y x) then y # insert_cmp c x ys else x # y # ys)"

definition js_sort :: "('a \<Rightarrow> 'a \<Rightarrow> jsnum) \<Rightarrow> 'a list \<Rightarrow> 'a list" where
  "js_sort c xs = foldr (insert_cmp c) xs []"

subsection \<open>The live feed fold\<close>

text \<open>
  A row of the live feed after the response has been unpacked: \<open>row.timestamp\<close> in
  epoch seconds, and \<open>row.data\<close>, which is an array of records, an object whose values
  are records, or a string that \<open>JSON.parse\<close> rejects.
\<close>

datatype rowData =
    DataArray "raw_player list"
  | DataObject "(string \<times> raw_player) list"
  | DataUnparsable

record row =
  timestamp :: int
  data :: rowData

text \<open>What makes the run stop: every one of these ends in \<open>process.exit(1)\<close>.\<close>

datatype error = RangeError | ReadError | MissingEnv | RequestFailed

text \<open>
  \<open>Array.isArray(rowData) ? rowData : Object.values(rowData)\<close>, after the
  \<open>JSON.parse\<close> of a string; \<open>None\<close> when that parse throws.
\<close>

fun playersInRow :: "rowData \<Rightarrow> raw_player list option" where
  "playersInRow (DataArray ps) = Some ps"
| "playersInRow (DataObject kvs) = Some (map snd kvs)"
| "playersInRow DataUnparsable = None"

text \<open>
  The body of \<open>cfHistoryRows.forEach\<close>. \<open>toISOString\<close> stands for
  \<open>new Date(ms).toISOString()\<close>, which throws a \<open>RangeError\<close> (\<open>None\<close>) on a time value
  out of range; a row whose data does not parse is skipped.
\<close>

definition live_row :: "(int \<Rightarrow> string option) \<Rightarrow> playerMap \<Rightarrow> row \<Rightarrow> error + playerMap" where
  "live_row toISOString playerMap r =
     (case toISOString (timestamp r * 1000) of
        None \<Rightarrow> Inl RangeError
      | Some rowDate \<Rightarrow>
          (case playersInRow (data r) of
             None \<Rightarrow> Inr playerMap
           | Some ps \<Rightarrow> Inr (foldl (live_step rowDate) playerMap ps)))"

fun live_rows :: "(int \<Rightarrow> string option) \<Rightarrow> playerMap \<Rightarrow> row list \<Rightarrow> error + playerMap" where
  "live_rows toISOString playerMap [] = Inr playerMap"
| "live_rows toISOString playerMap (r # rs) =
     (case live_row toISOString playerMap r of
        Inl e \<Rightarrow> Inl e
      | Inr playerMap' \<Rightarrow> live_rows toISOString playerMap' rs)"

text \<open>
  Step 3 of \<open>run\<close> in \<open>scripts/generate_stats.js\<close>, with the sort of the rows by
  \<open>a.timestamp - b.timestamp\<close> that precedes it.
\<close>

definition processLive :: "(int \<Rightarrow> string option) \<Rightarrow> playerMap \<Rightarrow> row list \<Rightarrow> error + playerMap" where
  "processLive toISOString playerMap cfHistoryRows =
     live_rows toISOString playerMap
       (js_sort (\<lambda>a b. sub (Num (timestamp a)) (Num (timestamp b))) cfHistoryRows)"

subsection \<open>The backfill fold\<close>

text \<open>
  Step 4 of \<open>run\<close> in the backfill script. \<open>snapshotMap\<close> maps a commit date string to
  the population parsed from that commit; its keys are sorted by
  \<open>new Date(a) - new Date(b)\<close> and visited in that order, each with its population.
  \<open>dateTime\<close> stands for \<open>new Date(s).getTime()\<close>, \<open>NaN\<close> for a string that is no date.
  The fold starts from an empty \<open>playerMap\<close>.
\<close>

definition buildHistory :: "(string \<Rightarrow> jsnum) \<Rightarrow> (raw_player list) jsmap \<Rightarrow> playerMap" where
  "buildHistory dateTime snapshotMap =
     (let sortedDates = js_sort (\<lambda>a b. sub (dateTime a) (dateTime b)) (map fst snapshotMap)
      in foldl (\<lambda>playerMap d.
                  case map_of snapshotMap d of
                    None \<Rightarrow> playerMap
                  | Some players \<Rightarrow> foldl (backfill_step d) playerMap players)
           [] sortedDates)"

section \<open>Stats, pruning, discord sync and saving\<close>

definition oneDay :: int where
  "oneDay = 24 * 60 * 60 * 1000"

definition sevenDays :: int where
  "sevenDays = 7 * oneDay"

definition thirtyDays :: int where
  "thirtyDays = 30 * oneDay"

text \<open>
  \<open>getVRAt\<close> of step 4, on the pruned history. It is called only below the guard
  \<open>if (data.vr_history.length === 0) continue\<close>, so \<open>vr_history[0]\<close> exists.
\<close>

definition getVRAt :: "int \<Rightarrow> (string \<Rightarrow> jsnum) \<Rightarrow> entry list \<Rightarrow> int \<Rightarrow> jsnum" where
  "getVRAt now dateTime history msAgo =
     (let targetTime = sub (Num now) (Num msAgo) in
      case find (\<lambda>h. ge_js (dateTime (date h)) targetTime) history of
        Some entry \<Rightarrow> totalVR entry
      | None \<Rightarrow> totalVR (history ! 0))"

text \<open>
  The names of the members of \<open>Object.prototype\<close>, which every plain object inherits.
\<close>

definition protoNames :: "string list" where
  "protoNames =
     [''constructor'', ''__defineGetter__'', ''__defineSetter__'', ''hasOwnProperty'',
      ''__lookupGetter__'', ''__lookupSetter__'', ''isPrototypeOf'', ''propertyIsEnumerable'',
      ''toString'', ''valueOf'', ''__proto__'', ''toLocaleString'']"

text \<open>
  \<open>discordCache[fc]\<close>, where \<open>own\<close> gives the string values of the keys that the cache
  object holds itself: the value of an own key, else the inherited member if \<open>fc\<close> names
  one, else \<open>undefined\<close> (\<open>None\<close>).
\<close>

definition cacheGet :: "(string \<Rightarrow> string option) \<Rightarrow> string \<Rightarrow> dvalue option" where
  "cacheGet own k =
     (case own k of
        Some v \<Rightarrow> Some (DStr v)
      | None \<Rightarrow> if k \<in> set protoNames then Some (DMember k) else None)"

text \<open>
  The discord profile sync: \<open>cacheProfile\<close> is \<open>discordCache[fc]\<close>, \<open>d\<close> the stored
  \<open>data.discord\<close>; the result is the new \<open>data.discord\<close>. An absent value and the empty
  string are falsy, every other value is truthy.
\<close>

definition discordSync :: "dvalue option \<Rightarrow> dvalue option \<Rightarrow> dvalue option" where
  "discordSync cacheProfile d =
     (let d1 = (if d = None \<or> d = Some (DStr []) then Some (DStr ''unknown'') else d) in
      if cacheProfile \<noteq> None \<and> cacheProfile \<noteq> Some (DStr []) then
        if cacheProfile = Some (DStr ''not_linked'') then
          if d1 = Some (DStr ''unknown'') \<or> d1 = Some (DStr ''not_linked'')
          then Some (DStr ''not_linked'') else d1
        else cacheProfile
      else d1)"

text \<open>\<open>fc.replace(/[^a-zA-Z0-9-]/g, '_')\<close>.\<close>

definition isSafeChar :: "char \<Rightarrow> bool" where
  "isSafeChar c =
     (let n = (of_char c :: nat) in
      (97 \<le> n \<and> n \<le> 122) \<or> (65 \<le> n \<and> n \<le> 90) \<or> (48 \<le> n \<and> n \<le> 57) \<or> c = CHR ''-'')"

definition safeFC :: "string \<Rightarrow> string" where
  "safeFC k = map (\<lambda>c. if isSafeChar c then c else CHR ''_'') k"

text \<open>
  One turn of the loop \<open>for (const [fc, data] of playerMap)\<close>: the record after the
  turn, and the file it writes if it writes one (the file name inside \<open>PLAYERS_DIR\<close>
  and the record written). \<open>discordCache k\<close> stands for the lookup \<open>discordCache[fc]\<close>.
\<close>

definition finalize_player ::
  "int \<Rightarrow> (string \<Rightarrow> jsnum) \<Rightarrow> (string \<Rightarrow> dvalue option) \<Rightarrow> string \<Rightarrow> player
     \<Rightarrow> player \<times> (string \<times> player) option" where
  "finalize_player now dateTime discordCache k data0 =
     (let sorted = js_sort (\<lambda>a b. sub (dateTime (date a)) (dateTime (date b))) (vr_history data0);
          pruned = filter (\<lambda>h. le_js (sub (Num now) (dateTime (date h))) (Num thirtyDays)) sorted;
          data1 = data0\<lparr>vr_history := pruned\<rparr>
      in if length pruned = 0 then (data1, None)
         else
           let currentTotal = totalVR (pruned ! (length pruned - 1));
               data2 = data1\<lparr>vrStats := Some
                         \<lparr>last24Hours = sub currentTotal (getVRAt now dateTime pruned oneDay),
                          lastWeek = sub currentTotal (getVRAt now dateTime pruned sevenDays),
                          lastMonth = sub currentTotal (getVRAt now dateTime pruned thirtyDays)\<rparr>\<rparr>;
               data3 = data2\<lparr>discord := discordSync (discordCache k) (discord data2)\<rparr>
           in (data3, Some (safeFC k @ ''.json'', data3)))"

text \<open>
  A file of a directory: a JSON document holding a player record, or something that
  \<open>readJson\<close> rejects. A directory maps file names to files. The document is modelled
  by the record it was written from; that JSON writes \<open>NaN\<close> and the infinities as
  \<open>null\<close> and leaves a function out is not tracked.
\<close>

datatype jsonfile = JsonFile player | NotJson

text \<open>The whole loop of step 4, threading the content of \<open>PLAYERS_DIR\<close>.\<close>

fun finalize ::
  "int \<Rightarrow> (string \<Rightarrow> jsnum) \<Rightarrow> (string \<Rightarrow> dvalue option) \<Rightarrow> playerMap \<Rightarrow> jsonfile jsmap
     \<Rightarrow> playerMap \<times> jsonfile jsmap" where
  "finalize now dateTime discordCache [] files = ([], files)"
| "finalize now dateTime discordCache ((k, data0) # rest) files =
     (case finalize_player now dateTime discordCache k data0 of
        (data', w) \<Rightarrow>
          (case finalize now dateTime discordCache rest
                  (case w of None \<Rightarrow> files | Some (f, d) \<Rightarrow> map_set files f (JsonFile d)) of
             (rest', files') \<Rightarrow> ((k, data') # rest', files')))"

section \<open>The stats run\<close>

text \<open>
  The two directories the run touches. \<open>ARCHIVE_DIR\<close> may be absent (\<open>None\<close>);
  \<open>PLAYERS_DIR\<close> always exists after \<open>fs.ensureDir(PLAYERS_DIR)\<close>, empty if it was absent.
\<close>

record fs =
  archive_dir :: "jsonfile jsmap option"
  players_dir :: "jsonfile jsmap"

text \<open>
  What the remote service answers: the environment variable, the rows unpacked from
  the response of \<open>GET /\<close> (\<open>None\<close> when the request fails), and the object answered by
  \<open>GET /discord\<close>, as the string values of its own keys (\<open>None\<close> when that request
  fails, which leaves the empty object).
\<close>

record feed =
  CF_WORKER_URL :: "string option"
  historyRes :: "row list option"
  dcRes :: "(string \<Rightarrow> string option) option"

definition endsWith :: "string \<Rightarrow> string \<Rightarrow> bool" where
  "endsWith s suf = (length suf \<le> length s \<and> drop (length s - length suf) s = suf)"

text \<open>The loop \<open>for (const file of files)\<close> of step 1.\<close>

fun loadFiles :: "playerMap \<Rightarrow> jsonfile jsmap \<Rightarrow> error + playerMap" where
  "loadFiles playerMap [] = Inr playerMap"
| "loadFiles playerMap ((file, content) # files) =
     (if \<not> endsWith file ''.json'' then loadFiles playerMap files
      else case content of
             NotJson \<Rightarrow> Inl ReadError
           | JsonFile data0 \<Rightarrow> loadFiles (map_set playerMap (fc data0) data0) files)"

text \<open>Step 1: \<open>loadDir = hasArchive ? ARCHIVE_DIR : PLAYERS_DIR\<close>.\<close>

definition loadBase :: "fs \<Rightarrow> error + playerMap" where
  "loadBase disk =
     (let loadDir = (case archive_dir disk of Some a \<Rightarrow> a | None \<Rightarrow> players_dir disk)
      in loadFiles [] loadDir)"

text \<open>Steps 1 to 3: the merged \<open>playerMap\<close> that step 4 starts from.\<close>

definition mergedMap :: "(int \<Rightarrow> string option) \<Rightarrow> feed \<Rightarrow> fs \<Rightarrow> error + playerMap" where
  "mergedMap toISOString srv disk =
     (case loadBase disk of
        Inl e \<Rightarrow> Inl e
      | Inr playerMap \<Rightarrow>
          (if CF_WORKER_URL srv = None \<or> CF_WORKER_URL srv = Some [] then Inl MissingEnv
           else (case historyRes srv of
                   None \<Rightarrow> Inl RequestFailed
                 | Some cfHistoryRows \<Rightarrow> processLive toISOString playerMap cfHistoryRows)))"

text \<open>
  The lookup \<open>discordCache[fc]\<close> of a run: \<open>discordCache\<close> is the object answered by
  \<open>GET /discord\<close>, or the empty object when the request fails.
\<close>

definition cacheOf :: "feed \<Rightarrow> string \<Rightarrow> dvalue option" where
  "cacheOf srv = cacheGet (case dcRes srv of None \<Rightarrow> (\<lambda>k. None) | Some c \<Rightarrow> c)"

text \<open>
  \<open>run\<close> of \<open>scripts/generate_stats.js\<close>: the directories after the run, or the error
  that ends it. \<open>now\<close> is \<open>new Date()\<close> in epoch milliseconds.
\<close>

definition run ::
  "(int \<Rightarrow> string option) \<Rightarrow> (string \<Rightarrow> jsnum) \<Rightarrow> int \<Rightarrow> feed \<Rightarrow> fs \<Rightarrow> error + fs" where
  "run toISOString dateTime now srv disk =
     (case mergedMap toISOString srv disk of
        Inl e \<Rightarrow> Inl e
      | Inr playerMap \<Rightarrow>
          let files = snd (finalize now dateTime (cacheOf srv) playerMap (players_dir disk))
          in Inr \<lparr>archive_dir = None, players_dir = files\<rparr>)"

text \<open>
  Step 5 of the backfill script: one file per entry of \<open>playerMap\<close>, written in order
  into the emptied \<open>ARCHIVE_DIR\<close>.
\<close>

definition writeArchive :: "playerMap \<Rightarrow> jsonfile jsmap" where
  "writeArchive playerMap =
     foldl (\<lambda>files (k, data0). map_set files (safeFC k @ ''.json'') (JsonFile data0)) [] playerMap"

section \<open>Predicates and sample data used in the statements\<close>

text \<open>The histories held by a \<open>playerMap\<close>, key by key.\<close>

definition hists :: "playerMap \<Rightarrow> (entry list) jsmap" where
  "hists m = map (\<lambda>(k, pl). (k, vr_history pl)) m"

text \<open>Every entry but the first carries the difference to the total before it.\<close>

definition delta_ok :: "entry list \<Rightarrow> bool" where
  "delta_ok h = (\<forall>i < length h. 0 < i \<longrightarrow>
                   vrChange (h ! i) = sub (totalVR (h ! i)) (totalVR (h ! (i - 1))))"

text \<open>
  The raw record \<open>p\<close> of a snapshot dated \<open>d\<close> is covered by the histories \<open>H\<close> when it
  has no key, or its key has a history with an entry dated \<open>d\<close>; a row is covered when
  its date can be printed and all its records are covered.
\<close>

definition covered :: "(entry list) jsmap \<Rightarrow> string \<Rightarrow> raw_player \<Rightarrow> bool" where
  "covered H d p =
     (case p_fc p of
        None \<Rightarrow> True
      | Some k \<Rightarrow>
          k = [] \<or> (case map_of H k of None \<Rightarrow> False | Some h \<Rightarrow> d \<in> date ` set h))"

definition row_covered :: "(int \<Rightarrow> string option) \<Rightarrow> (entry list) jsmap \<Rightarrow> row \<Rightarrow> bool" where
  "row_covered toISOString H r =
     (case toISOString (timestamp r * 1000) of
        None \<Rightarrow> False
      | Some d \<Rightarrow>
          (case playersInRow (data r) of
             None \<Rightarrow> True
           | Some ps \<Rightarrow> (\<forall>p \<in> set ps. covered H d p)))"




text \<open>
  The date functions of the platform on the instants that the examples use:
  \<open>exampleISO\<close> is \<open>new Date(ms).toISOString()\<close> and \<open>exampleTime\<close> is
  \<open>new Date(s).getTime()\<close> there. The examples use no other instant or date string.
\<close>

definition exampleISO :: "int \<Rightarrow> string option" where
  "exampleISO ms =
     map_of [(1708387200000, ''2024-02-20T00:00:00.000Z''),
             (1710979200000, ''2024-03-21T00:00:00.000Z''),
             (1711411200000, ''2024-03-26T00:00:00.000Z''),
             (1711843200000, ''2024-03-31T00:00:00.000Z'')] ms"

definition exampleTime :: "string \<Rightarrow> jsnum" where
  "exampleTime s =
     (case map_of [(''2024-02-20T00:00:00.000Z'', 1708387200000),
                   (''2024-02-29T23:59:59.999Z'', 1709251199999),
                   (''2024-03-01T00:00:00.000Z'', 1709251200000),
                   (''2024-03-21T00:00:00.000Z'', 1710979200000),
                   (''2024-03-26T00:00:00.000Z'', 1711411200000),
                   (''2024-03-31T00:00:00.000Z'', 1711843200000),
                   (''2024-03-21T00:00:00+00:00'', 1710979200000),
                   (''2024-03-26T00:00:00+00:00'', 1711411200000)] s of
        None \<Rightarrow> NaN
      | Some t \<Rightarrow> Num t)"

text \<open>\<open>now\<close> of the examples: 2024-03-31T00:00:00.000Z.\<close>

definition exampleNow :: int where
  "exampleNow = 1711843200000"

text \<open>A raw record of player \<open>1234-5678-9012\<close> with rating \<open>v\<close> in the field \<open>ev\<close>.\<close>

definition rawA :: "int \<Rightarrow> raw_player" where
  "rawA v = \<lparr>p_fc = Some ''1234-5678-9012'', p_name = Some ''Al'', p_ev = JNum v, p_vr = JUndefined\<rparr>"

text \<open>Three live rows, ten, five and zero days before \<open>exampleNow\<close>, given out of order.\<close>

definition exampleRows :: "row list" where
  "exampleRows =
     [\<lparr>timestamp = 1711411200, data = DataArray [rawA 50]\<rparr>,
      \<lparr>timestamp = 1710979200, data = DataArray [rawA 0]\<rparr>,
      \<lparr>timestamp = 1711843200, data = DataObject [(''0'', rawA 120)]\<rparr>]"

text \<open>Two backfill snapshots.\<close>

definition exampleSnapshots :: "(raw_player list) jsmap" where
  "exampleSnapshots =
     [(''2024-03-26T00:00:00+00:00'', [rawA 5050]),
      (''2024-03-21T00:00:00+00:00'', [rawA 5000])]"

text \<open>A backfill snapshot that lists the same player twice.\<close>

definition duplicateSnapshot :: "(raw_player list) jsmap" where
  "duplicateSnapshot = [(''2024-03-21T00:00:00+00:00'', [rawA 5000, rawA 5000])]"

text \<open>The history that the live fold builds from \<open>exampleRows\<close>.\<close>

definition liveHistory :: "entry list" where
  "liveHistory =
     [\<lparr>date = ''2024-03-21T00:00:00.000Z'', vrChange = Num 0, totalVR = Num 0\<rparr>,
      \<lparr>date = ''2024-03-26T00:00:00.000Z'', vrChange = Num 50, totalVR = Num 50\<rparr>,
      \<lparr>date = ''2024-03-31T00:00:00.000Z'', vrChange = Num 70, totalVR = Num 120\<rparr>]"

text \<open>The history that the backfill fold builds from \<open>exampleSnapshots\<close>.\<close>

definition backfillHistory :: "entry list" where
  "backfillHistory =
     [\<lparr>date = ''2024-03-21T00:00:00+00:00'', vrChange = Num 0, totalVR = Num 5000\<rparr>,
      \<lparr>date = ''2024-03-26T00:00:00+00:00'', vrChange = Num 50, totalVR = Num 5050\<rparr>]"


text \<open>The stored record of player \<open>1234-5678-9012\<close> with history \<open>h\<close>.\<close>

definition playerA :: "entry list \<Rightarrow> player" where
  "playerA h = \<lparr>name = ''Al'', fc = ''1234-5678-9012'', vr_history = h, vrStats = None,
                 discord = Some (DStr ''unknown'')\<rparr>"

text \<open>
  A history with an entry one millisecond more than thirty days before \<open>exampleNow\<close>, an
  entry exactly thirty days before it, and an entry at \<open>exampleNow\<close>.
\<close>

definition boundaryHistory :: "entry list" where
  "boundaryHistory =
     [\<lparr>date = ''2024-02-29T23:59:59.999Z'', vrChange = Num 0, totalVR = Num 4000\<rparr>,
      \<lparr>date = ''2024-03-01T00:00:00.000Z'', vrChange = Num 500, totalVR = Num 4500\<rparr>,
      \<lparr>date = ''2024-03-31T00:00:00.000Z'', vrChange = Num 500, totalVR = Num 5000\<rparr>]"

text \<open>A history whose only entry is forty days older than \<open>exampleNow\<close>.\<close>

definition staleHistory :: "entry list" where
  "staleHistory = [\<lparr>date = ''2024-02-20T00:00:00.000Z'', vrChange = Num 0, totalVR = Num 5000\<rparr>]"

text \<open>A feed whose only row is forty days older than \<open>exampleNow\<close>; the discord request fails.\<close>

definition staleFeed :: feed where
  "staleFeed =
     \<lparr>CF_WORKER_URL = Some ''https://worker.example'',
      historyRes = Some [\<lparr>timestamp = 1708387200, data = DataArray [rawA 5000]\<rparr>],
      dcRes = None\<rparr>"

text \<open>
  A feed with no row, whose discord cache links player \<open>1234-5678-9012\<close>, and a disk
  whose players directory holds the file of that player with the stale history.
\<close>

definition quietFeed :: feed where
  "quietFeed =
     \<lparr>CF_WORKER_URL = Some ''https://worker.example'',
      historyRes = Some [],
      dcRes = Some [''1234-5678-9012'' \<mapsto> ''linked:xyz'']\<rparr>"

definition staleDisk :: fs where
  "staleDisk =
     \<lparr>archive_dir = None,
      players_dir = [(''1234-5678-9012.json'', JsonFile (playerA staleHistory))]\<rparr>"

text \<open>
  A disk whose players directory holds the file of that player with the history at the
  boundary, and a disk where the stale record is in the archive only.
\<close>

definition boundaryDisk :: fs where
  "boundaryDisk =
     \<lparr>archive_dir = None,
      players_dir = [(''1234-5678-9012.json'', JsonFile (playerA boundaryHistory))]\<rparr>"


text \<open>
  A feed whose only row, dated \<open>exampleNow\<close>, holds two players whose keys differ in one
  character.
\<close>

definition collisionFeed :: feed where
  "collisionFeed =
     \<lparr>CF_WORKER_URL = Some ''https://worker.example'',
      historyRes = Some [\<lparr>timestamp = 1711843200,
                          data = DataArray
                            [\<lparr>p_fc = Some ''1234 5678'', p_name = Some ''Bo'', p_ev = JNum 6000,
                              p_vr = JUndefined\<rparr>,
                             \<lparr>p_fc = Some ''1234_5678'', p_name = Some ''Cy'', p_ev = JUndefined,
                              p_vr = JNum 7000\<rparr>]\<rparr>],
      dcRes = None\<rparr>"

text \<open>
  A disk with an archive and a players directory that both hold a file of player
  \<open>1234-5678-9012\<close>: the one written by the backfill, the other by an earlier stats run.
\<close>

definition archivedA :: player where
  "archivedA = \<lparr>name = ''Al'', fc = ''1234-5678-9012'', vr_history = backfillHistory, vrStats = None,
                 discord = None\<rparr>"

definition persistedA :: player where
  "persistedA = \<lparr>name = ''Al'', fc = ''1234-5678-9012'', vr_history = liveHistory,
                  vrStats = Some \<lparr>last24Hours = Num 0, lastWeek = Num 70, lastMonth = Num 120\<rparr>,
                  discord = Some (DStr ''linked:abc'')\<rparr>"

definition exampleDisk :: fs where
  "exampleDisk =
     \<lparr>archive_dir = Some [(''1234-5678-9012.json'', JsonFile archivedA)],
      players_dir = [(''1234-5678-9012.json'', JsonFile persistedA)]\<rparr>"

section \<open>Lemmas on the map and on the two folds\<close>

lemma covered_iff:
  "covered H d p =
     (case p_fc p of
        None \<Rightarrow> True
      | Some k \<Rightarrow> k = [] \<or> (\<exists>h. map_of H k = Some h \<and> d \<in> date ` set h))"
  by (auto simp: covered_def split: option.splits)

lemma delta_ok_iff:
  "delta_ok h = (\<forall>i. 0 < i \<and> i < length h \<longrightarrow>
                   vrChange (h ! i) = sub (totalVR (h ! i)) (totalVR (h ! (i - 1))))"
  by (auto simp: delta_ok_def)

lemma map_of_map_set: "map_of (map_set m k v) = (map_of m)(k \<mapsto> v)"
  by (induction m) (auto simp: fun_eq_iff)

lemma map_set_cases: "(k', v') \<in> set (map_set m k v) \<Longrightarrow> (k', v') = (k, v) \<or> (k', v') \<in> set m"
  by (induction m) (auto split: if_splits)

lemma live_step_pres:
  assumes inv: "\<forall>(k, pl) \<in> set m. P (vr_history pl)"
    and first: "\<And>e. vrChange e = sub (totalVR e) (totalVR e) \<Longrightarrow> P [e]"
    and app: "\<And>h e. P h \<Longrightarrow> h \<noteq> [] \<Longrightarrow> vrChange e = sub (totalVR e) (totalVR (last h))
                 \<Longrightarrow> date e = d \<Longrightarrow> d \<notin> date ` set h \<Longrightarrow> P (h @ [e])"
  shows "\<forall>(k, pl) \<in> set (live_step d m p). P (vr_history pl)"
proof (cases "p_fc p")
  case None
  then show ?thesis using inv by (simp add: live_step_def)
next
  case (Some k)
  show ?thesis
  proof (cases "k = []")
    case True
    then show ?thesis using inv Some by (simp add: live_step_def)
  next
    case False
    show ?thesis
    proof (cases "map_of m k")
      case None
      have "P [\<lparr>date = d, vrChange = sub (currentVR p) (currentVR p), totalVR = currentVR p\<rparr>]"
        by (rule first) simp
      then show ?thesis
        using inv Some False None
        by (auto simp: live_step_def Let_def dest!: map_set_cases)
    next
      case (Some e)
      then have Pe: "P (vr_history e)" using inv by (auto dest: map_of_SomeD)
      show ?thesis
      proof (cases "vr_history e = []")
        case True
        have "P [\<lparr>date = d, vrChange = sub (currentVR p) (currentVR p), totalVR = currentVR p\<rparr>]"
          by (rule first) simp
        then show ?thesis
          using inv \<open>p_fc p = Some k\<close> False Some True
          by (auto simp: live_step_def Let_def dest!: map_set_cases)
      next
        case ne: False
        show ?thesis
        proof (cases "d \<in> date ` set (vr_history e)")
          case True
          then show ?thesis
            using inv \<open>p_fc p = Some k\<close> False Some Pe
            by (auto simp: live_step_def Let_def list_ex_iff dest!: map_set_cases)
        next
          case nd: False
          have "P (vr_history e @ [\<lparr>date = d, vrChange = sub (currentVR p) (totalVR (last (vr_history e))), totalVR = currentVR p\<rparr>])"
            by (rule app[OF Pe ne _ _ nd]) simp_all
          then show ?thesis
            using inv \<open>p_fc p = Some k\<close> False Some ne nd
            by (auto simp: live_step_def Let_def list_ex_iff dest!: map_set_cases)
        qed
      qed
    qed
  qed
qed

lemma backfill_step_pres:
  assumes inv: "\<forall>(k, pl) \<in> set m. P (vr_history pl)"
    and first: "\<And>e. vrChange e = sub (totalVR e) (totalVR e) \<Longrightarrow> P [e]"
    and app: "\<And>h e. P h \<Longrightarrow> h \<noteq> [] \<Longrightarrow> vrChange e = sub (totalVR e) (totalVR (last h))
                 \<Longrightarrow> P (h @ [e])"
  shows "\<forall>(k, pl) \<in> set (backfill_step d m p). P (vr_history pl)"
proof (cases "p_fc p")
  case None
  then show ?thesis using inv by (simp add: backfill_step_def)
next
  case (Some k)
  show ?thesis
  proof (cases "k = []")
    case True
    then show ?thesis using inv Some by (simp add: backfill_step_def)
  next
    case False
    show ?thesis
    proof (cases "map_of m k")
      case None
      have "P [\<lparr>date = d, vrChange = sub (currentVR p) (currentVR p), totalVR = currentVR p\<rparr>]"
        by (rule first) simp
      then show ?thesis
        using inv Some False None
        by (auto simp: backfill_step_def Let_def dest!: map_set_cases)
    next
      case (Some e)
      then have Pe: "P (vr_history e)" using inv by (auto dest: map_of_SomeD)
      show ?thesis
      proof (cases "vr_history e")
        case Nil
        have "P [\<lparr>date = d, vrChange = sub (currentVR p) (currentVR p), totalVR = currentVR p\<rparr>]"
          by (rule first) simp
        then show ?thesis
          using inv \<open>p_fc p = Some k\<close> False Some Nil
          by (auto simp: backfill_step_def Let_def dest!: map_set_cases)
      next
        case (Cons x xs)
        then have ne: "vr_history e \<noteq> []" by simp
        have "P (vr_history e @ [\<lparr>date = d, vrChange = sub (currentVR p) (totalVR (last (vr_history e))), totalVR = currentVR p\<rparr>])"
          by (rule app[OF Pe ne]) simp
        then show ?thesis
          using inv \<open>p_fc p = Some k\<close> False Some Cons
          by (auto simp: backfill_step_def Let_def dest!: map_set_cases)
      qed
    qed
  qed
qed


lemma foldl_live_step_pres:
  assumes inv: "\<forall>(k, pl) \<in> set m. P (vr_history pl)"
    and first: "\<And>e. vrChange e = sub (totalVR e) (totalVR e) \<Longrightarrow> P [e]"
    and app: "\<And>h e. P h \<Longrightarrow> h \<noteq> [] \<Longrightarrow> vrChange e = sub (totalVR e) (totalVR (last h))
                 \<Longrightarrow> date e \<notin> date ` set h \<Longrightarrow> P (h @ [e])"
  shows "\<forall>(k, pl) \<in> set (foldl (live_step d) m ps). P (vr_history pl)"
  using inv
proof (induction ps arbitrary: m)
  case Nil
  then show ?case by simp
next
  case (Cons p ps)
  have "\<forall>(k, pl) \<in> set (live_step d m p). P (vr_history pl)"
  proof (rule live_step_pres[OF Cons.prems first])
    fix h and e :: entry
    assume "P h" "h \<noteq> []" "vrChange e = sub (totalVR e) (totalVR (last h))" "date e = d"
      "d \<notin> date ` set h"
    then show "P (h @ [e])" using app[of h e] by simp
  qed
  then show ?case using Cons.IH by simp
qed

lemma live_rows_pres:
  assumes inv: "\<forall>(k, pl) \<in> set m. P (vr_history pl)"
    and first: "\<And>e. vrChange e = sub (totalVR e) (totalVR e) \<Longrightarrow> P [e]"
    and app: "\<And>h e. P h \<Longrightarrow> h \<noteq> [] \<Longrightarrow> vrChange e = sub (totalVR e) (totalVR (last h))
                 \<Longrightarrow> date e \<notin> date ` set h \<Longrightarrow> P (h @ [e])"
    and run: "live_rows toISOString m rows = Inr m'"
  shows "\<forall>(k, pl) \<in> set m'. P (vr_history pl)"
  using inv run
proof (induction rows arbitrary: m)
  case Nil
  then show ?case by simp
next
  case (Cons r rs)
  from Cons.prems(2) obtain m1 where r: "live_row toISOString m r = Inr m1"
    and rest: "live_rows toISOString m1 rs = Inr m'"
    by (cases "live_row toISOString m r") simp_all
  have "\<forall>(k, pl) \<in> set m1. P (vr_history pl)"
  proof (cases "toISOString (timestamp r * 1000)")
    case None
    then show ?thesis using r by (simp add: live_row_def)
  next
    case (Some d)
    show ?thesis
    proof (cases "playersInRow (data r)")
      case None
      then show ?thesis using r Some Cons.prems(1) by (simp add: live_row_def)
    next
      case ps: (Some ps)
      have m1: "m1 = foldl (live_step d) m ps"
        using r Some ps by (simp add: live_row_def)
      have "\<forall>(k, pl) \<in> set (foldl (live_step d) m ps). P (vr_history pl)"
        by (rule foldl_live_step_pres[OF Cons.prems(1) first app])
      then show ?thesis
        unfolding m1 .
    qed
  qed
  then show ?case using rest by (rule Cons.IH)
qed

lemma foldl_backfill_step_pres:
  assumes inv: "\<forall>(k, pl) \<in> set m. P (vr_history pl)"
    and first: "\<And>e. vrChange e = sub (totalVR e) (totalVR e) \<Longrightarrow> P [e]"
    and app: "\<And>h e. P h \<Longrightarrow> h \<noteq> [] \<Longrightarrow> vrChange e = sub (totalVR e) (totalVR (last h))
                 \<Longrightarrow> P (h @ [e])"
  shows "\<forall>(k, pl) \<in> set (foldl (backfill_step d) m ps). P (vr_history pl)"
  using inv
proof (induction ps arbitrary: m)
  case Nil
  then show ?case by simp
next
  case (Cons p ps)
  have "\<forall>(k, pl) \<in> set (backfill_step d m p). P (vr_history pl)"
    by (rule backfill_step_pres[OF Cons.prems first app])
  then show ?case using Cons.IH by simp
qed

lemma backfill_dates_pres:
  assumes inv: "\<forall>(k, pl) \<in> set m. P (vr_history pl)"
    and first: "\<And>e. vrChange e = sub (totalVR e) (totalVR e) \<Longrightarrow> P [e]"
    and app: "\<And>h e. P h \<Longrightarrow> h \<noteq> [] \<Longrightarrow> vrChange e = sub (totalVR e) (totalVR (last h))
                 \<Longrightarrow> P (h @ [e])"
  shows "\<forall>(k, pl) \<in> set (foldl (\<lambda>playerMap d.
                  case map_of snapshotMap d of
                    None \<Rightarrow> playerMap
                  | Some ps \<Rightarrow> foldl (backfill_step d) playerMap ps) m ds). P (vr_history pl)"
  using inv
proof (induction ds arbitrary: m)
  case Nil
  then show ?case by simp
next
  case (Cons d ds)
  have "\<forall>(k, pl) \<in> set (case map_of snapshotMap d of
                    None \<Rightarrow> m
                  | Some ps \<Rightarrow> foldl (backfill_step d) m ps). P (vr_history pl)"
  proof (cases "map_of snapshotMap d")
    case None
    then show ?thesis using Cons.prems by simp
  next
    case (Some ps)
    have "\<forall>(k, pl) \<in> set (foldl (backfill_step d) m ps). P (vr_history pl)"
      by (rule foldl_backfill_step_pres[OF Cons.prems first app])
    then show ?thesis
      unfolding Some option.case .
  qed
  then show ?case using Cons.IH by simp
qed

lemma buildHistory_pres:
  assumes first: "\<And>e. vrChange e = sub (totalVR e) (totalVR e) \<Longrightarrow> P [e]"
    and app: "\<And>h e. P h \<Longrightarrow> h \<noteq> [] \<Longrightarrow> vrChange e = sub (totalVR e) (totalVR (last h))
                 \<Longrightarrow> P (h @ [e])"
  shows "\<forall>(k, pl) \<in> set (buildHistory dateTime snapshotMap). P (vr_history pl)"
  unfolding buildHistory_def Let_def
  by (rule backfill_dates_pres[OF _ first app]) simp_all

lemma delta_ok_single: "delta_ok [e]"
  by (simp add: delta_ok_iff)

lemma delta_ok_append:
  assumes "delta_ok h" "h \<noteq> []" "vrChange e = sub (totalVR e) (totalVR (last h))"
  shows "delta_ok (h @ [e])"
  unfolding delta_ok_iff
proof (intro allI impI)
  fix i assume i: "0 < i \<and> i < length (h @ [e])"
  show "vrChange ((h @ [e]) ! i) = sub (totalVR ((h @ [e]) ! i)) (totalVR ((h @ [e]) ! (i - 1)))"
  proof (cases "i < length h")
    case True
    then have "i - 1 < length h" by simp
    then show ?thesis using assms(1) i True by (simp add: delta_ok_iff nth_append)
  next
    case False
    then have "i = length h" using i by simp
    then show ?thesis using assms(2,3) by (simp add: nth_append last_conv_nth)
  qed
qed

lemma map_of_hists: "map_of (hists m) k = map_option vr_history (map_of m k)"
  by (induction m) (auto simp: hists_def)

lemma hists_map_set: "hists (map_set m k v) = map_set (hists m) k (vr_history v)"
  by (induction m) (auto simp: hists_def)

lemma map_set_same: "map_of H k = Some h \<Longrightarrow> map_set H k h = H"
  by (induction H) (auto split: if_splits)

lemma live_step_hists:
  "hists (live_step d m p) =
     (case p_fc p of
        None \<Rightarrow> hists m
      | Some k \<Rightarrow>
          if k = [] then hists m
          else let h = (case map_of (hists m) k of None \<Rightarrow> [] | Some h \<Rightarrow> h) in
               if d \<in> date ` set h then map_set (hists m) k h
               else map_set (hists m) k
                      (h @ [\<lparr>date = d,
                              vrChange = sub (currentVR p) (if h = [] then currentVR p else totalVR (last h)),
                              totalVR = currentVR p\<rparr>]))"
  by (auto simp: live_step_def Let_def hists_map_set map_of_hists list_ex_iff
           split: option.splits)

lemma live_step_present:
  assumes "covered (hists m) d p"
  shows "hists (live_step d m p) = hists m"
  using assms
  by (auto simp: live_step_hists covered_iff Let_def map_set_same split: option.splits)

lemma covered_after_step: "covered (hists (live_step d m p)) d p"
  by (auto simp: live_step_hists covered_iff Let_def map_of_map_set split: option.splits)

lemma covered_step_mono:
  assumes "covered (hists m) d' p'"
  shows "covered (hists (live_step d m p)) d' p'"
proof (cases "p_fc p'")
  case None
  then show ?thesis by (simp add: covered_iff)
next
  case (Some k')
  show ?thesis
  proof (cases "k' = []")
    case True
    then show ?thesis using Some by (simp add: covered_iff)
  next
    case False
    with assms Some obtain h where h: "map_of (hists m) k' = Some h" "d' \<in> date ` set h"
      by (auto simp: covered_iff)
    have "\<exists>h'. map_of (hists (live_step d m p)) k' = Some h' \<and> d' \<in> date ` set h'"
      using h by (auto simp: live_step_hists Let_def map_of_map_set split: option.splits)
    then show ?thesis using Some False by (simp add: covered_iff)
  qed
qed


lemma foldl_covered_mono:
  "covered (hists m) d' p' \<Longrightarrow> covered (hists (foldl (live_step d) m ps)) d' p'"
  by (induction ps arbitrary: m) (simp_all add: covered_step_mono)

lemma foldl_covered_after:
  "p \<in> set ps \<Longrightarrow> covered (hists (foldl (live_step d) m ps)) d p"
proof (induction ps arbitrary: m)
  case Nil
  then show ?case by simp
next
  case (Cons q qs)
  show ?case
  proof (cases "p = q")
    case True
    then show ?thesis
      using foldl_covered_mono[where m = "live_step d m q" and d' = d and p' = q and d = d
          and ps = qs, OF covered_after_step] by simp
  next
    case False
    then have "p \<in> set qs" using Cons.prems by simp
    then show ?thesis using Cons.IH by simp
  qed
qed

lemma foldl_present:
  "(\<And>p. p \<in> set ps \<Longrightarrow> covered (hists m) d p) \<Longrightarrow> hists (foldl (live_step d) m ps) = hists m"
proof (induction ps arbitrary: m)
  case Nil
  then show ?case by simp
next
  case (Cons q qs)
  have q: "hists (live_step d m q) = hists m"
    by (rule live_step_present) (simp add: Cons.prems)
  have "hists (foldl (live_step d) (live_step d m q) qs) = hists (live_step d m q)"
    by (rule Cons.IH) (simp add: q Cons.prems)
  then show ?case by (simp add: q)
qed

lemma live_row_mono:
  assumes "live_row toISOString m r = Inr m'" "row_covered toISOString (hists m) r0"
  shows "row_covered toISOString (hists m') r0"
proof -
  have "m' = m \<or> (\<exists>d ps. m' = foldl (live_step d) m ps)"
    using assms(1) by (auto simp: live_row_def split: option.splits)
  then show ?thesis
  proof
    assume "m' = m"
    then show ?thesis using assms(2) by simp
  next
    assume "\<exists>d ps. m' = foldl (live_step d) m ps"
    then obtain d ps where m': "m' = foldl (live_step d) m ps" by blast
    show ?thesis
      using assms(2) unfolding m' row_covered_def
      by (auto split: option.splits intro: foldl_covered_mono)
  qed
qed

lemma live_row_after:
  assumes "live_row toISOString m r = Inr m'"
  shows "row_covered toISOString (hists m') r"
  using assms
  by (auto simp: live_row_def row_covered_def foldl_covered_after split: option.splits)

lemma live_rows_mono:
  "live_rows toISOString m rows = Inr m' \<Longrightarrow> row_covered toISOString (hists m) r0
     \<Longrightarrow> row_covered toISOString (hists m') r0"
proof (induction rows arbitrary: m)
  case Nil
  then show ?case by simp
next
  case (Cons r rs)
  from Cons.prems(1) obtain m1 where r: "live_row toISOString m r = Inr m1"
    and rest: "live_rows toISOString m1 rs = Inr m'"
    by (cases "live_row toISOString m r") simp_all
  have "row_covered toISOString (hists m1) r0"
    by (rule live_row_mono[OF r Cons.prems(2)])
  with rest show ?case by (rule Cons.IH)
qed

lemma live_rows_after:
  "live_rows toISOString m rows = Inr m' \<Longrightarrow> r \<in> set rows
     \<Longrightarrow> row_covered toISOString (hists m') r"
proof (induction rows arbitrary: m)
  case Nil
  then show ?case by simp
next
  case (Cons r1 rs)
  from Cons.prems(1) obtain m1 where r1: "live_row toISOString m r1 = Inr m1"
    and rest: "live_rows toISOString m1 rs = Inr m'"
    by (cases "live_row toISOString m r1") simp_all
  show ?case
  proof (cases "r \<in> set rs")
    case True
    with rest show ?thesis by (rule Cons.IH)
  next
    case False
    then have "r = r1" using Cons.prems(2) by simp
    then show ?thesis
      using live_rows_mono[OF rest live_row_after[OF r1]] by simp
  qed
qed

lemma live_row_present:
  assumes "row_covered toISOString (hists m) r"
  shows "\<exists>m'. live_row toISOString m r = Inr m' \<and> hists m' = hists m"
  using assms
  by (auto simp: live_row_def row_covered_def foldl_present split: option.splits)

lemma live_rows_present:
  "(\<And>r. r \<in> set rows \<Longrightarrow> row_covered toISOString (hists m) r)
     \<Longrightarrow> \<exists>m'. live_rows toISOString m rows = Inr m' \<and> hists m' = hists m"
proof (induction rows arbitrary: m)
  case Nil
  then show ?case by simp
next
  case (Cons r rs)
  obtain m1 where r: "live_row toISOString m r = Inr m1" and h1: "hists m1 = hists m"
    using live_row_present[of toISOString m r] Cons.prems by auto
  have "\<exists>m'. live_rows toISOString m1 rs = Inr m' \<and> hists m' = hists m1"
    by (rule Cons.IH) (simp add: h1 Cons.prems)
  then show ?case using r h1 by auto
qed

lemma live_rows_idem:
  assumes "live_rows toISOString m rows = Inr m1"
  shows "\<exists>m2. live_rows toISOString m1 rows = Inr m2 \<and> hists m2 = hists m1"
  by (rule live_rows_present) (rule live_rows_after[OF assms])

lemma distinct_dates_append:
  "distinct (map date h) \<Longrightarrow> date e \<notin> date ` set h \<Longrightarrow> distinct (map date (h @ [e]))"
  by simp

lemma bitLength_lower: "0 < n \<Longrightarrow> 2 ^ (bitLength n - 1) \<le> n"
proof (induction n rule: bitLength.induct)
  case (1 n)
  show ?case
  proof (cases "n div 2 \<le> 0")
    case True
    then have "bitLength (n div 2) = 0" by (simp add: bitLength.simps)
    then show ?thesis using "1.prems" by (simp add: bitLength.simps[of n])
  next
    case False
    then have pos: "0 < n div 2" by simp
    then have ih: "2 ^ (bitLength (n div 2) - 1) \<le> n div 2" using "1.IH" "1.prems" by simp
    have bl: "bitLength (n div 2) = Suc (bitLength (n div 2) - 1)"
      using pos by (simp add: bitLength.simps[of "n div 2"])
    have "bitLength n - 1 = bitLength (n div 2)"
      using "1.prems" by (simp add: bitLength.simps[of n])
    then have "(2::int) ^ (bitLength n - 1) = 2 * 2 ^ (bitLength (n div 2) - 1)"
      using bl by (metis power_Suc)
    also have "\<dots> \<le> 2 * (n div 2)" using ih by simp
    also have "\<dots> \<le> n" by simp
    finally show ?thesis .
  qed
qed

lemma bitLength_ge: "2 ^ k \<le> n \<Longrightarrow> Suc k \<le> bitLength n"
proof (induction k arbitrary: n)
  case 0
  then show ?case by (simp add: bitLength.simps[of n])
next
  case (Suc k)
  then have "2 ^ k \<le> n div 2" by simp
  then have "Suc k \<le> bitLength (n div 2)" by (rule Suc.IH)
  moreover have "0 < n" using Suc.prems by (smt (verit) zero_less_power)
  ultimately show ?case by (simp add: bitLength.simps[of n])
qed

lemma roundMag_big:
  assumes "2 ^ 53 \<le> a"
  shows "2 ^ 53 \<le> roundMag a"
proof -
  define e where "e = bitLength a - 53"
  define q where "q = a div 2 ^ e"
  have pos: "0 < a" using assms by (smt (verit) zero_less_power)
  have bl: "54 \<le> bitLength a" using bitLength_ge[of 53 a] assms by simp
  then have e1: "1 \<le> e" by (simp add: e_def)
  have "bitLength a - 1 = e + 52" using bl by (simp add: e_def)
  then have "(2::int) ^ (e + 52) \<le> a" using bitLength_lower[OF pos] by simp
  then have "(2::int) ^ 52 * 2 ^ e \<le> a" by (simp add: power_add mult.commute)
  then have q52: "2 ^ 52 \<le> q"
    unfolding q_def by (metis zero_less_numeral zero_less_power pos_imp_zdiv_nonneg_iff
        div_mult_self_is_m zdiv_mono1 nonzero_mult_div_cancel_right less_irrefl)
  have e2: "(2::int) \<le> 2 ^ e" using e1 by (metis power_increasing one_le_numeral power_one_right)
  have base: "2 ^ 53 \<le> q * 2 ^ e"
  proof -
    have "(2::int) ^ 53 = 2 ^ 52 * 2" by simp
    also have "\<dots> \<le> q * 2 ^ e" using q52 e2 by (intro mult_mono) auto
    finally show ?thesis .
  qed
  have step: "q * 2 ^ e \<le> (q + 1) * 2 ^ e" by (simp add: distrib_right)
  have up: "2 ^ 53 \<le> (q + 1) * 2 ^ e" using base step by linarith
  have "\<not> a < 2 ^ 53" using assms by simp
  then have "roundMag a = q * 2 ^ e \<or> roundMag a = (q + 1) * 2 ^ e"
    by (simp add: roundMag_def Let_def e_def[symmetric] q_def[symmetric])
  then show ?thesis using base up by auto
qed

lemma negative_roundDouble: "negative (roundDouble x) = (x < 0)"
proof (cases "\<bar>x\<bar> < 2 ^ 53")
  case True
  then show ?thesis by (simp add: roundDouble_def)
next
  case False
  then have "2 ^ 53 \<le> roundMag \<bar>x\<bar>" by (intro roundMag_big) simp
  then have pos: "0 < roundMag \<bar>x\<bar>" by (smt (verit) zero_less_power)
  show ?thesis
  proof (cases "x < 0")
    case True
    then show ?thesis using False pos by (simp add: roundDouble_def Let_def)
  next
    case nn: False
    then show ?thesis using False pos by (simp add: roundDouble_def Let_def)
  qed
qed

lemma le_roundDouble:
  assumes "\<bar>c\<bar> < 2 ^ 53"
  shows "le_js (roundDouble x) (Num c) = (x \<le> c)"
proof (cases "\<bar>x\<bar> < 2 ^ 53")
  case True
  then show ?thesis by (simp add: roundDouble_def)
next
  case False
  then have big: "2 ^ 53 \<le> roundMag \<bar>x\<bar>" by (intro roundMag_big) simp
  show ?thesis
  proof (cases "x < 0")
    case True
    then have "x \<le> c" using False assms by linarith
    then show ?thesis using False True big assms by (auto simp: roundDouble_def Let_def)
  next
    case nn: False
    then have "\<not> x \<le> c" using False assms by linarith
    then show ?thesis using False nn big assms by (auto simp: roundDouble_def Let_def)
  qed
qed

lemma negative_sub: "negative (sub (Num a) (Num b)) = (a < b)"
  by (simp add: negative_roundDouble)

lemma le_sub: "\<bar>c\<bar> < 2 ^ 53 \<Longrightarrow> le_js (sub (Num a) (Num b)) (Num c) = (a - b \<le> c)"
  by (simp add: le_roundDouble)

lemma roundDouble_small: "\<bar>n\<bar> < 2 ^ 53 \<Longrightarrow> roundDouble n = Num n"
  by (simp add: roundDouble_def)

lemma sub_self: "sub x x = (case x of Num t \<Rightarrow> Num 0 | _ \<Rightarrow> NaN)"
  by (cases x) (simp_all add: roundDouble_small)

lemma first_entry_single:
  "vrChange e = sub (totalVR e) (totalVR e)
     \<Longrightarrow> [e] \<noteq> [] \<and> vrChange ([e] ! 0) = sub (totalVR ([e] ! 0)) (totalVR ([e] ! 0))"
  by simp

lemma first_entry_append:
  "h \<noteq> [] \<and> vrChange (h ! 0) = sub (totalVR (h ! 0)) (totalVR (h ! 0))
     \<Longrightarrow> h @ [e] \<noteq> [] \<and> vrChange ((h @ [e]) ! 0)
           = sub (totalVR ((h @ [e]) ! 0)) (totalVR ((h @ [e]) ! 0))"
  by (simp add: nth_append)

lemma set_insert_cmp: "set (insert_cmp c x ys) = insert x (set ys)"
  by (induction ys) auto

lemma set_js_sort: "set (js_sort c xs) = set xs"
  by (induction xs) (simp_all add: js_sort_def set_insert_cmp)


lemma finalize_player_history:
  "vr_history (fst (finalize_player now dateTime discordCache k data0)) =
     filter (\<lambda>h. le_js (sub (Num now) (dateTime (date h))) (Num thirtyDays))
       (js_sort (\<lambda>a b. sub (dateTime (date a)) (dateTime (date b))) (vr_history data0))"
  by (simp add: finalize_player_def Let_def)

lemma finalize_player_empty:
  assumes "vr_history (fst (finalize_player now dateTime discordCache k data0)) = []"
  shows "finalize_player now dateTime discordCache k data0 = (data0\<lparr>vr_history := []\<rparr>, None)"
  using assms by (simp add: finalize_player_def Let_def split: if_splits)

lemma finalize_player_nonempty:
  assumes "vr_history (fst (finalize_player now dateTime discordCache k data0)) \<noteq> []"
  shows "snd (finalize_player now dateTime discordCache k data0)
           = Some (safeFC k @ ''.json'', fst (finalize_player now dateTime discordCache k data0))"
  using assms by (simp add: finalize_player_def Let_def split: if_splits)


lemma finalize_player_discord:
  assumes "vr_history (fst (finalize_player now dateTime discordCache k data0)) \<noteq> []"
  shows "discord (fst (finalize_player now dateTime discordCache k data0))
           = discordSync (discordCache k) (discord data0)"
  using assms by (auto simp: finalize_player_def Let_def split: if_splits)





lemma sub_time:
  "\<bar>now\<bar> \<le> 8640000000000000 \<Longrightarrow> 0 \<le> w \<Longrightarrow> w \<le> thirtyDays
     \<Longrightarrow> sub (Num now) (Num w) = Num (now - w)"
  by (simp add: roundDouble_small thirtyDays_def oneDay_def)

lemma finalize_Cons:
  "finalize now dateTime discordCache ((k, d) # m) files =
     ((k, fst (finalize_player now dateTime discordCache k d))
        # fst (finalize now dateTime discordCache m
                 (case snd (finalize_player now dateTime discordCache k d) of
                    None \<Rightarrow> files
                  | Some (f, d') \<Rightarrow> map_set files f (JsonFile d'))),
      snd (finalize now dateTime discordCache m
             (case snd (finalize_player now dateTime discordCache k d) of
                None \<Rightarrow> files
              | Some (f, d') \<Rightarrow> map_set files f (JsonFile d'))))"
  by (simp split: prod.splits)

lemma fst_finalize:
  "fst (finalize now dateTime discordCache m files)
     = map (\<lambda>(k, d). (k, fst (finalize_player now dateTime discordCache k d))) m"
proof (induction m arbitrary: files)
  case Nil
  then show ?case by simp
next
  case (Cons a m)
  obtain k d where a: "a = (k, d)" by (cases a)
  show ?case unfolding a finalize_Cons using Cons.IH by simp
qed



lemma run_Inr:
  "run toISOString dateTime now srv disk = Inr disk' \<longleftrightarrow>
     (\<exists>m. mergedMap toISOString srv disk = Inr m
          \<and> disk' = \<lparr>archive_dir = None,
                      players_dir = snd (finalize now dateTime (cacheOf srv) m (players_dir disk))\<rparr>)"
  by (auto simp: run_def Let_def split: sum.splits)

lemma finalize_files_cases:
  assumes "map_of (snd (finalize now dateTime discordCache m files)) f = Some x"
  shows "map_of files f = Some x
         \<or> (\<exists>k d. (k, d) \<in> set m
               \<and> snd (finalize_player now dateTime discordCache k d)
                   = Some (f, fst (finalize_player now dateTime discordCache k d))
               \<and> x = JsonFile (fst (finalize_player now dateTime discordCache k d)))"
  using assms
proof (induction m arbitrary: files)
  case Nil
  then show ?case by simp
next
  case (Cons a m)
  obtain k d where a: "a = (k, d)" by (cases a)
  let ?w = "snd (finalize_player now dateTime discordCache k d)"
  let ?files1 = "case ?w of None \<Rightarrow> files | Some (f, d') \<Rightarrow> map_set files f (JsonFile d')"
  have "map_of (snd (finalize now dateTime discordCache m ?files1)) f = Some x"
    using Cons.prems unfolding a finalize_Cons by simp
  then have "map_of ?files1 f = Some x
         \<or> (\<exists>k d. (k, d) \<in> set m
               \<and> snd (finalize_player now dateTime discordCache k d)
                   = Some (f, fst (finalize_player now dateTime discordCache k d))
               \<and> x = JsonFile (fst (finalize_player now dateTime discordCache k d)))"
    by (rule Cons.IH)
  then show ?case
  proof
    assume f1: "map_of ?files1 f = Some x"
    show ?thesis
    proof (cases ?w)
      case None
      then show ?thesis using f1 by simp
    next
      case (Some fd)
      have ne: "vr_history (fst (finalize_player now dateTime discordCache k d)) \<noteq> []"
        using finalize_player_empty[of now dateTime discordCache k d] Some by auto
      have w: "?w = Some (safeFC k @ ''.json'', fst (finalize_player now dateTime discordCache k d))"
        by (rule finalize_player_nonempty[OF ne])
      show ?thesis
      proof (cases "f = safeFC k @ ''.json''")
        case True
        then have "x = JsonFile (fst (finalize_player now dateTime discordCache k d))"
          using f1 unfolding w by (simp add: map_of_map_set)
        then show ?thesis using a w True by auto
      next
        case False
        then have "map_of files f = Some x"
          using f1 unfolding w by (simp add: map_of_map_set)
        then show ?thesis by simp
      qed
    qed
  next
    assume "\<exists>k d. (k, d) \<in> set m
               \<and> snd (finalize_player now dateTime discordCache k d)
                   = Some (f, fst (finalize_player now dateTime discordCache k d))
               \<and> x = JsonFile (fst (finalize_player now dateTime discordCache k d))"
    then show ?thesis by auto
  qed
qed

lemma finalize_files_keep:
  assumes "map_of files f = Some x"
  shows "\<exists>y. map_of (snd (finalize now dateTime discordCache m files)) f = Some y"
  using assms
proof (induction m arbitrary: files x)
  case Nil
  then show ?case by simp
next
  case (Cons a m)
  obtain k d where a: "a = (k, d)" by (cases a)
  let ?w = "snd (finalize_player now dateTime discordCache k d)"
  let ?files1 = "case ?w of None \<Rightarrow> files | Some (f, d') \<Rightarrow> map_set files f (JsonFile d')"
  have "\<exists>y. map_of ?files1 f = Some y"
    using Cons.prems by (auto simp: map_of_map_set split: option.splits)
  then obtain y where "map_of ?files1 f = Some y" by blast
  then have "\<exists>y. map_of (snd (finalize now dateTime discordCache m ?files1)) f = Some y"
    by (rule Cons.IH)
  then show ?case unfolding a finalize_Cons by simp
qed

lemma pruned_set:
  "set (vr_history (fst (finalize_player now dateTime discordCache k data0)))
     = {h \<in> set (vr_history data0). le_js (sub (Num now) (dateTime (date h))) (Num thirtyDays)}"
  by (simp add: finalize_player_history set_js_sort)

lemma thirtyDays_small: "\<bar>thirtyDays\<bar> < 2 ^ 53"
  by (simp add: thirtyDays_def oneDay_def)

lemma pruned_iff:
  assumes "h \<in> set (vr_history data0)" "dateTime (date h) = Num t"
  shows "h \<in> set (vr_history (fst (finalize_player now dateTime discordCache k data0)))
           \<longleftrightarrow> now - t \<le> thirtyDays"
  using assms le_sub[OF thirtyDays_small, of now t] by (simp only: pruned_set) simp

lemma finalize_files_written:
  assumes "(k, d) \<in> set m"
    and "vr_history (fst (finalize_player now dateTime discordCache k d)) \<noteq> []"
  shows "\<exists>k' d'. (k', d') \<in> set m \<and> safeFC k' = safeFC k
           \<and> vr_history (fst (finalize_player now dateTime discordCache k' d')) \<noteq> []
           \<and> map_of (snd (finalize now dateTime discordCache m files)) (safeFC k @ ''.json'')
               = Some (JsonFile (fst (finalize_player now dateTime discordCache k' d')))"
  using assms(1)
proof (induction m arbitrary: files)
  case Nil
  then show ?case by simp
next
  case (Cons a m)
  obtain k1 d1 where a: "a = (k1, d1)" by (cases a)
  let ?f = "safeFC k @ ''.json''"
  let ?w = "snd (finalize_player now dateTime discordCache k1 d1)"
  let ?files1 = "case ?w of None \<Rightarrow> files | Some (f, d') \<Rightarrow> map_set files f (JsonFile d')"
  have res: "snd (finalize now dateTime discordCache (a # m) files)
               = snd (finalize now dateTime discordCache m ?files1)"
    unfolding a finalize_Cons by simp
  show ?case
  proof (cases "(k, d) \<in> set m")
    case True
    from Cons.IH[OF True, of ?files1] obtain k' d' where
      "(k', d') \<in> set m" "safeFC k' = safeFC k"
      "vr_history (fst (finalize_player now dateTime discordCache k' d')) \<noteq> []"
      "map_of (snd (finalize now dateTime discordCache m ?files1)) ?f
               = Some (JsonFile (fst (finalize_player now dateTime discordCache k' d')))"
      by blast
    then show ?thesis unfolding res by (intro exI[of _ k'] exI[of _ d']) simp
  next
    case False
    then have kd: "k1 = k" "d1 = d" using Cons.prems a by auto
    have w: "?w = Some (?f, fst (finalize_player now dateTime discordCache k d))"
      using finalize_player_nonempty[OF assms(2)] kd by simp
    have f1: "map_of ?files1 ?f = Some (JsonFile (fst (finalize_player now dateTime discordCache k d)))"
      unfolding w by (simp add: map_of_map_set)
    from finalize_files_keep[OF f1] obtain y where
      y: "map_of (snd (finalize now dateTime discordCache m ?files1)) ?f = Some y" by blast
    from finalize_files_cases[OF y]
    consider "map_of ?files1 ?f = Some y"
      | k' d' where "(k', d') \<in> set m"
          "snd (finalize_player now dateTime discordCache k' d')
             = Some (?f, fst (finalize_player now dateTime discordCache k' d'))"
          "y = JsonFile (fst (finalize_player now dateTime discordCache k' d'))"
      by blast
    then show ?thesis
    proof cases
      case 1
      with f1 have "y = JsonFile (fst (finalize_player now dateTime discordCache k d))" by simp
      with y show ?thesis
        unfolding res using assms(2) kd a by (intro exI[of _ k] exI[of _ d]) simp
    next
      case 2
      have ne: "vr_history (fst (finalize_player now dateTime discordCache k' d')) \<noteq> []"
        using finalize_player_empty[of now dateTime discordCache k' d'] 2(2) by auto
      from finalize_player_nonempty[OF ne] 2(2) have "safeFC k' = safeFC k" by simp
      with 2 y ne show ?thesis
        unfolding res by (intro exI[of _ k'] exI[of _ d']) simp
    qed
  qed
qed














lemma first_entry_values:
  assumes "h \<noteq> [] \<and> vrChange (h ! 0) = sub (totalVR (h ! 0)) (totalVR (h ! 0))"
  shows "h \<noteq> []
         \<and> vrChange (h ! 0) = sub (totalVR (h ! 0)) (totalVR (h ! 0))
         \<and> vrChange (h ! 0) = (case totalVR (h ! 0) of Num t \<Rightarrow> Num 0 | _ \<Rightarrow> NaN)
         \<and> (vrChange (h ! 0) = totalVR (h ! 0)
              \<longleftrightarrow> totalVR (h ! 0) = Num 0 \<or> totalVR (h ! 0) = NaN)"
  using assms by (cases "totalVR (h ! 0)") (simp_all add: sub_self)

section \<open>The delta of every later entry\<close>

text \<open>
  C6: in every history that the live fold or the backfill fold builds from an empty
  \<open>playerMap\<close>, each entry at an index \<open>i > 0\<close> has
  \<open>vrChange[i] = totalVR[i] - totalVR[i-1]\<close>.
\<close>

theorem delta_invariant:
  "(\<forall>m. processLive toISOString [] cfHistoryRows = Inr m \<longrightarrow>
      (\<forall>(k, pl) \<in> set m. \<forall>i. 0 < i \<and> i < length (vr_history pl) \<longrightarrow>
         vrChange (vr_history pl ! i)
           = sub (totalVR (vr_history pl ! i)) (totalVR (vr_history pl ! (i - 1)))))
   \<and> (\<forall>(k, pl) \<in> set (buildHistory dateTime snapshotMap).
         \<forall>i. 0 < i \<and> i < length (vr_history pl) \<longrightarrow>
           vrChange (vr_history pl ! i)
             = sub (totalVR (vr_history pl ! i)) (totalVR (vr_history pl ! (i - 1))))"
proof (intro conjI allI impI)
  fix m assume run: "processLive toISOString [] cfHistoryRows = Inr m"
  have "\<forall>(k, pl) \<in> set m. delta_ok (vr_history pl)"
    by (rule live_rows_pres[where P = delta_ok and m = "[]", OF _ _ _ run[unfolded processLive_def]])
       (auto intro: delta_ok_single delta_ok_append)
  then show "\<forall>(k, pl) \<in> set m. \<forall>i. 0 < i \<and> i < length (vr_history pl) \<longrightarrow>
         vrChange (vr_history pl ! i)
           = sub (totalVR (vr_history pl ! i)) (totalVR (vr_history pl ! (i - 1)))"
    by (auto simp: delta_ok_iff)
next
  have "\<forall>(k, pl) \<in> set (buildHistory dateTime snapshotMap). delta_ok (vr_history pl)"
    by (rule buildHistory_pres) (auto intro: delta_ok_single delta_ok_append)
  then show "\<forall>(k, pl) \<in> set (buildHistory dateTime snapshotMap).
         \<forall>i. 0 < i \<and> i < length (vr_history pl) \<longrightarrow>
           vrChange (vr_history pl ! i)
             = sub (totalVR (vr_history pl ! i)) (totalVR (vr_history pl ! (i - 1)))"
    by (auto simp: delta_ok_iff)
qed


text \<open>The invariant on the histories built from \<open>exampleRows\<close> and \<open>exampleSnapshots\<close>.\<close>

theorem delta_invariant_witness:
  "processLive exampleISO [] exampleRows
     = Inr [(''1234-5678-9012'', \<lparr>name = ''Al'', fc = ''1234-5678-9012'', vr_history = liveHistory,
                                   vrStats = None, discord = Some (DStr ''unknown'')\<rparr>)]
   \<and> vrChange (liveHistory ! 2) = sub (totalVR (liveHistory ! 2)) (totalVR (liveHistory ! (2 - 1)))
   \<and> buildHistory exampleTime exampleSnapshots
     = [(''1234-5678-9012'', \<lparr>name = ''Al'', fc = ''1234-5678-9012'', vr_history = backfillHistory,
                               vrStats = None, discord = None\<rparr>)]
   \<and> vrChange (backfillHistory ! 1)
       = sub (totalVR (backfillHistory ! 1)) (totalVR (backfillHistory ! (1 - 1)))"
proof -
  have live: "processLive exampleISO [] exampleRows
     = Inr [(''1234-5678-9012'', \<lparr>name = ''Al'', fc = ''1234-5678-9012'', vr_history = liveHistory,
                                   vrStats = None, discord = Some (DStr ''unknown'')\<rparr>)]"
    by code_simp
  have bf_eq: "buildHistory exampleTime exampleSnapshots
     = [(''1234-5678-9012'', \<lparr>name = ''Al'', fc = ''1234-5678-9012'', vr_history = backfillHistory,
                               vrStats = None, discord = None\<rparr>)]"
    by code_simp
  have l3: "(2::nat) < length liveHistory" and l2: "(1::nat) < length backfillHistory"
    by (simp_all add: liveHistory_def backfillHistory_def)
  note inv = delta_invariant [of exampleISO exampleRows exampleTime exampleSnapshots]
  have "vrChange (liveHistory ! 2) = sub (totalVR (liveHistory ! 2)) (totalVR (liveHistory ! (2 - 1)))"
    using inv live l3 by simp
  moreover have "vrChange (backfillHistory ! 1)
       = sub (totalVR (backfillHistory ! 1)) (totalVR (backfillHistory ! (1 - 1)))"
    using inv bf_eq l2 by simp
  ultimately show ?thesis using live bf_eq by simp
qed

section \<open>The guard against duplicate timestamps\<close>

text \<open>
  C1, as the code has it: the guard exists in the live fold only. There, for a raw
  record whose key already has an entry with the row's exact date string, the step
  changes no history; the fold keeps the dates of every history pairwise distinct when
  they were so in the base; a fold over rows whose records are all covered by the
  histories changes no history; and so does running the fold again over the rows it
  has just processed. The backfill fold has no such guard: it appends for
  every record of every snapshot.
\<close>

theorem live_dedup_guard:
  "(\<forall>k e. p_fc p = Some k \<and> k \<noteq> [] \<and> map_of playerMap k = Some e
            \<and> rowDate \<in> date ` set (vr_history e)
       \<longrightarrow> hists (live_step rowDate playerMap p) = hists playerMap)
   \<and> (\<forall>m'. (\<forall>(k, pl) \<in> set playerMap. distinct (map date (vr_history pl)))
            \<and> processLive toISOString playerMap cfHistoryRows = Inr m'
       \<longrightarrow> (\<forall>(k, pl) \<in> set m'. distinct (map date (vr_history pl))))
   \<and> ((\<forall>r \<in> set cfHistoryRows. row_covered toISOString (hists playerMap) r)
       \<longrightarrow> (\<exists>m'. processLive toISOString playerMap cfHistoryRows = Inr m'
                  \<and> hists m' = hists playerMap))
   \<and> (\<forall>m1. processLive toISOString playerMap cfHistoryRows = Inr m1
       \<longrightarrow> (\<exists>m2. processLive toISOString m1 cfHistoryRows = Inr m2 \<and> hists m2 = hists m1))"
proof (intro conjI allI impI)
  fix k e
  assume a: "p_fc p = Some k \<and> k \<noteq> [] \<and> map_of playerMap k = Some e
            \<and> rowDate \<in> date ` set (vr_history e)"
  then have "covered (hists playerMap) rowDate p"
    by (auto simp: covered_iff map_of_hists)
  then show "hists (live_step rowDate playerMap p) = hists playerMap"
    by (rule live_step_present)
next
  fix m'
  assume a: "(\<forall>(k, pl) \<in> set playerMap. distinct (map date (vr_history pl)))
            \<and> processLive toISOString playerMap cfHistoryRows = Inr m'"
  then have inv: "\<forall>(k, pl) \<in> set playerMap. distinct (map date (vr_history pl))"
    and run: "live_rows toISOString playerMap
                (js_sort (\<lambda>a b. sub (Num (timestamp a)) (Num (timestamp b))) cfHistoryRows) = Inr m'"
    unfolding processLive_def by blast+
  show "\<forall>(k, pl) \<in> set m'. distinct (map date (vr_history pl))"
    by (rule live_rows_pres[where P = "\<lambda>h. distinct (map date h)", OF inv _ _ run])
       (simp_all add: distinct_dates_append)
next
  assume a: "\<forall>r \<in> set cfHistoryRows. row_covered toISOString (hists playerMap) r"
  show "\<exists>m'. processLive toISOString playerMap cfHistoryRows = Inr m' \<and> hists m' = hists playerMap"
    unfolding processLive_def
    by (rule live_rows_present) (use a in \<open>simp add: set_js_sort\<close>)
next
  fix m1
  assume "processLive toISOString playerMap cfHistoryRows = Inr m1"
  then show "\<exists>m2. processLive toISOString m1 cfHistoryRows = Inr m2 \<and> hists m2 = hists m1"
    unfolding processLive_def by (rule live_rows_idem)
qed

text \<open>
  The guard on the map built from \<open>exampleRows\<close>: a record dated like the second entry
  changes nothing, and neither does a second pass over the rows.
\<close>

theorem live_dedup_guard_witness:
  "processLive exampleISO [] exampleRows
     = Inr [(''1234-5678-9012'', \<lparr>name = ''Al'', fc = ''1234-5678-9012'', vr_history = liveHistory,
                                   vrStats = None, discord = Some (DStr ''unknown'')\<rparr>)]
   \<and> hists (live_step ''2024-03-26T00:00:00.000Z''
               [(''1234-5678-9012'', \<lparr>name = ''Al'', fc = ''1234-5678-9012'', vr_history = liveHistory,
                                       vrStats = None, discord = Some (DStr ''unknown'')\<rparr>)]
               (rawA 999))
       = [(''1234-5678-9012'', liveHistory)]
   \<and> distinct (map date liveHistory)
   \<and> (\<exists>m2. processLive exampleISO
               [(''1234-5678-9012'', \<lparr>name = ''Al'', fc = ''1234-5678-9012'', vr_history = liveHistory,
                                       vrStats = None, discord = Some (DStr ''unknown'')\<rparr>)]
               exampleRows = Inr m2
             \<and> hists m2 = [(''1234-5678-9012'', liveHistory)])"
proof -
  let ?A = "\<lparr>name = ''Al'', fc = ''1234-5678-9012'', vr_history = liveHistory,
             vrStats = None, discord = Some (DStr ''unknown'')\<rparr>"
  let ?m1 = "[(''1234-5678-9012'', ?A)]"
  have run: "processLive exampleISO [] exampleRows = Inr ?m1"
    by code_simp
  have h1: "hists ?m1 = [(''1234-5678-9012'', liveHistory)]"
    by (simp add: hists_def)
  have pre: "p_fc (rawA 999) = Some ''1234-5678-9012'' \<and> ''1234-5678-9012'' \<noteq> []
             \<and> map_of ?m1 ''1234-5678-9012'' = Some ?A
             \<and> ''2024-03-26T00:00:00.000Z'' \<in> date ` set (vr_history ?A)"
    by (simp add: rawA_def liveHistory_def)
  have step: "hists (live_step ''2024-03-26T00:00:00.000Z'' ?m1 (rawA 999)) = hists ?m1"
    using live_dedup_guard [of "rawA 999" ?m1 "''2024-03-26T00:00:00.000Z''" exampleISO exampleRows] pre
    by blast
  have dist: "distinct (map date liveHistory)"
    using live_dedup_guard [of "rawA 999" "[]" "''2024-03-26T00:00:00.000Z''" exampleISO exampleRows] run
    by simp
  have cov: "\<forall>r \<in> set exampleRows. row_covered exampleISO (hists ?m1) r"
    by code_simp
  have again: "\<exists>m2. processLive exampleISO ?m1 exampleRows = Inr m2 \<and> hists m2 = hists ?m1"
    using live_dedup_guard [of "rawA 999" ?m1 "''2024-03-26T00:00:00.000Z''" exampleISO exampleRows] cov
    by blast
  show ?thesis
    using run step dist again unfolding h1 by simp
qed

text \<open>
  C1 as stated fails for the backfill fold: a snapshot that lists a player twice gives
  two entries with the same date string.
\<close>

theorem backfill_duplicate_counterexample:
  "buildHistory exampleTime duplicateSnapshot
     = [(''1234-5678-9012'',
         \<lparr>name = ''Al'', fc = ''1234-5678-9012'',
          vr_history =
            [\<lparr>date = ''2024-03-21T00:00:00+00:00'', vrChange = Num 0, totalVR = Num 5000\<rparr>,
             \<lparr>date = ''2024-03-21T00:00:00+00:00'', vrChange = Num 0, totalVR = Num 5000\<rparr>],
          vrStats = None, discord = None\<rparr>)]
   \<and> \<not> distinct (map date
         [\<lparr>date = ''2024-03-21T00:00:00+00:00'', vrChange = Num 0, totalVR = Num 5000\<rparr>,
          \<lparr>date = ''2024-03-21T00:00:00+00:00'', vrChange = Num 0, totalVR = Num 5000\<rparr>])"
proof -
  have "buildHistory exampleTime duplicateSnapshot
     = [(''1234-5678-9012'',
         \<lparr>name = ''Al'', fc = ''1234-5678-9012'',
          vr_history =
            [\<lparr>date = ''2024-03-21T00:00:00+00:00'', vrChange = Num 0, totalVR = Num 5000\<rparr>,
             \<lparr>date = ''2024-03-21T00:00:00+00:00'', vrChange = Num 0, totalVR = Num 5000\<rparr>],
          vrStats = None, discord = None\<rparr>)]"
    by code_simp
  then show ?thesis by simp
qed

section \<open>File names\<close>

text \<open>
  C9: the transform of a key into a file name is not injective. The keys
  \<open>1234 5678\<close> and \<open>1234_5678\<close> differ and give the same name; a run whose merged
  \<open>playerMap\<close> holds both writes both records to \<open>1234_5678.json\<close>, and the directory
  holds the later one only. The backfill script writes its files the same way.
\<close>

theorem safeFC_collision:
  "\<not> inj safeFC
   \<and> ''1234 5678'' \<noteq> ''1234_5678''
   \<and> safeFC ''1234 5678'' = safeFC ''1234_5678''
   \<and> mergedMap exampleISO collisionFeed \<lparr>archive_dir = None, players_dir = []\<rparr>
       = Inr [(''1234 5678'',
               \<lparr>name = ''Bo'', fc = ''1234 5678'',
                vr_history = [\<lparr>date = ''2024-03-31T00:00:00.000Z'', vrChange = Num 0, totalVR = Num 6000\<rparr>],
                vrStats = None, discord = Some (DStr ''unknown'')\<rparr>),
              (''1234_5678'',
               \<lparr>name = ''Cy'', fc = ''1234_5678'',
                vr_history = [\<lparr>date = ''2024-03-31T00:00:00.000Z'', vrChange = Num 0, totalVR = Num 7000\<rparr>],
                vrStats = None, discord = Some (DStr ''unknown'')\<rparr>)]
   \<and> run exampleISO exampleTime exampleNow collisionFeed \<lparr>archive_dir = None, players_dir = []\<rparr>
       = Inr \<lparr>archive_dir = None,
              players_dir =
                [(''1234_5678.json'',
                  JsonFile
                    \<lparr>name = ''Cy'', fc = ''1234_5678'',
                     vr_history = [\<lparr>date = ''2024-03-31T00:00:00.000Z'', vrChange = Num 0,
                                    totalVR = Num 7000\<rparr>],
                     vrStats = Some \<lparr>last24Hours = Num 0, lastWeek = Num 0, lastMonth = Num 0\<rparr>,
                     discord = Some (DStr ''unknown'')\<rparr>)]\<rparr>
   \<and> writeArchive
         [(''1234 5678'', \<lparr>name = ''Bo'', fc = ''1234 5678'', vr_history = backfillHistory,
                            vrStats = None, discord = None\<rparr>),
          (''1234_5678'', \<lparr>name = ''Cy'', fc = ''1234_5678'', vr_history = [],
                            vrStats = None, discord = None\<rparr>)]
       = [(''1234_5678.json'',
           JsonFile \<lparr>name = ''Cy'', fc = ''1234_5678'', vr_history = [], vrStats = None,
                     discord = None\<rparr>)]"
proof -
  have eq: "safeFC ''1234 5678'' = safeFC ''1234_5678''"
    by code_simp
  have ne: "''1234 5678'' \<noteq> ''1234_5678''"
    by simp
  have "\<not> inj safeFC"
    using eq ne by (auto dest: injD)
  moreover have "mergedMap exampleISO collisionFeed \<lparr>archive_dir = None, players_dir = []\<rparr>
       = Inr [(''1234 5678'',
               \<lparr>name = ''Bo'', fc = ''1234 5678'',
                vr_history = [\<lparr>date = ''2024-03-31T00:00:00.000Z'', vrChange = Num 0, totalVR = Num 6000\<rparr>],
                vrStats = None, discord = Some (DStr ''unknown'')\<rparr>),
              (''1234_5678'',
               \<lparr>name = ''Cy'', fc = ''1234_5678'',
                vr_history = [\<lparr>date = ''2024-03-31T00:00:00.000Z'', vrChange = Num 0, totalVR = Num 7000\<rparr>],
                vrStats = None, discord = Some (DStr ''unknown'')\<rparr>)]"
    by code_simp
  moreover have "run exampleISO exampleTime exampleNow collisionFeed \<lparr>archive_dir = None, players_dir = []\<rparr>
       = Inr \<lparr>archive_dir = None,
              players_dir =
                [(''1234_5678.json'',
                  JsonFile
                    \<lparr>name = ''Cy'', fc = ''1234_5678'',
                     vr_history = [\<lparr>date = ''2024-03-31T00:00:00.000Z'', vrChange = Num 0,
                                    totalVR = Num 7000\<rparr>],
                     vrStats = Some \<lparr>last24Hours = Num 0, lastWeek = Num 0, lastMonth = Num 0\<rparr>,
                     discord = Some (DStr ''unknown'')\<rparr>)]\<rparr>"
    by code_simp
  moreover have "writeArchive
         [(''1234 5678'', \<lparr>name = ''Bo'', fc = ''1234 5678'', vr_history = backfillHistory,
                            vrStats = None, discord = None\<rparr>),
          (''1234_5678'', \<lparr>name = ''Cy'', fc = ''1234_5678'', vr_history = [],
                            vrStats = None, discord = None\<rparr>)]
       = [(''1234_5678.json'',
           JsonFile \<lparr>name = ''Cy'', fc = ''1234_5678'', vr_history = [], vrStats = None,
                     discord = None\<rparr>)]"
    by code_simp
  ultimately show ?thesis using eq ne by simp
qed

section \<open>The base of a stats run\<close>

text \<open>
  C10: when the archive directory exists, the base is loaded from its files alone: the
  base and the merged \<open>playerMap\<close> are the same whatever the players directory holds.
  The players directory is the base only when there is no archive. The records that
  step 4 computes do not depend on the content of the players directory either.
\<close>

theorem archive_base_only:
  "(archive_dir disk \<noteq> None \<longrightarrow>
      loadBase (disk\<lparr>players_dir := P\<rparr>) = loadBase disk
      \<and> mergedMap toISOString srv (disk\<lparr>players_dir := P\<rparr>) = mergedMap toISOString srv disk
      \<and> (\<exists>a. archive_dir disk = Some a \<and> loadBase disk = loadFiles [] a))
   \<and> (archive_dir disk = None \<longrightarrow> loadBase disk = loadFiles [] (players_dir disk))
   \<and> fst (finalize now dateTime discordCache m (players_dir disk))
       = fst (finalize now dateTime discordCache m P)"
proof (intro conjI impI)
  assume "archive_dir disk \<noteq> None"
  then obtain a where a: "archive_dir disk = Some a" by auto
  show "loadBase (disk\<lparr>players_dir := P\<rparr>) = loadBase disk"
    using a by (simp add: loadBase_def)
  then show "mergedMap toISOString srv (disk\<lparr>players_dir := P\<rparr>) = mergedMap toISOString srv disk"
    by (simp add: mergedMap_def)
  show "\<exists>a. archive_dir disk = Some a \<and> loadBase disk = loadFiles [] a"
    using a by (simp add: loadBase_def)
next
  assume "archive_dir disk = None"
  then show "loadBase disk = loadFiles [] (players_dir disk)"
    by (simp add: loadBase_def)
next
  show "fst (finalize now dateTime discordCache m (players_dir disk))
       = fst (finalize now dateTime discordCache m P)"
    by (simp add: fst_finalize)
qed

text \<open>
  On \<open>exampleDisk\<close> the base is the archived record; the persisted record, with its
  \<open>vrStats\<close> and its linked discord profile, is the base only once the archive is gone.
\<close>

theorem archive_base_only_witness:
  "archive_dir exampleDisk = Some [(''1234-5678-9012.json'', JsonFile archivedA)]
   \<and> players_dir exampleDisk = [(''1234-5678-9012.json'', JsonFile persistedA)]
   \<and> loadBase exampleDisk = Inr [(''1234-5678-9012'', archivedA)]
   \<and> loadBase (exampleDisk\<lparr>players_dir := []\<rparr>) = Inr [(''1234-5678-9012'', archivedA)]
   \<and> mergedMap exampleISO staleFeed exampleDisk
       = mergedMap exampleISO staleFeed (exampleDisk\<lparr>players_dir := []\<rparr>)
   \<and> loadBase \<lparr>archive_dir = None, players_dir = [(''1234-5678-9012.json'', JsonFile persistedA)]\<rparr>
       = Inr [(''1234-5678-9012'', persistedA)]"
proof -
  have a: "archive_dir exampleDisk = Some [(''1234-5678-9012.json'', JsonFile archivedA)]"
    and p: "players_dir exampleDisk = [(''1234-5678-9012.json'', JsonFile persistedA)]"
    by (simp_all add: exampleDisk_def)
  have l: "loadFiles [] [(''1234-5678-9012.json'', JsonFile archivedA)] = Inr [(''1234-5678-9012'', archivedA)]"
    by (simp add: endsWith_def archivedA_def)
  have l2: "loadFiles [] [(''1234-5678-9012.json'', JsonFile persistedA)] = Inr [(''1234-5678-9012'', persistedA)]"
    by (simp add: endsWith_def persistedA_def)
  note r = archive_base_only [of exampleDisk "[]" exampleISO staleFeed exampleNow exampleTime Map.empty "[]"]
  note r2 = archive_base_only [of "\<lparr>archive_dir = None, players_dir = [(''1234-5678-9012.json'', JsonFile persistedA)]\<rparr>"
      "[]" exampleISO staleFeed exampleNow exampleTime Map.empty "[]"]
  have b: "loadBase exampleDisk = Inr [(''1234-5678-9012'', archivedA)]"
    using r a l by auto
  have c: "loadBase (exampleDisk\<lparr>players_dir := []\<rparr>) = Inr [(''1234-5678-9012'', archivedA)]"
    using r a b by simp
  have d: "mergedMap exampleISO staleFeed exampleDisk
       = mergedMap exampleISO staleFeed (exampleDisk\<lparr>players_dir := []\<rparr>)"
    using r a by simp
  have e: "loadBase \<lparr>archive_dir = None, players_dir = [(''1234-5678-9012.json'', JsonFile persistedA)]\<rparr>
       = Inr [(''1234-5678-9012'', persistedA)]"
    using r2 l2 by simp
  show ?thesis using a p b c d e by simp
qed

section \<open>Window statistics\<close>



section \<open>Pruning\<close>

text \<open>
  C7, as the code has it. The finalize step keeps, of a player's history, exactly the entries
  \<open>h\<close> with \<open>now - new Date(h.date) \<le> 30 * 24 * 60 * 60 * 1000\<close>: for a date that parses
  to \<open>t\<close> this is \<open>now - t \<le> 2592000000\<close>, so an entry exactly thirty days old stays, an
  older one goes, and an entry whose date does not parse goes as well (the comparison with NaN is
  false). The record kept in memory for every player is the pruned one. A player whose pruned
  history is empty is not written; a player whose pruned history is not empty is written, under
  its file name, with the pruned history, and the file of that name holds at the end of the
  loop the pruned record of a player of that file name. After a successful run every file of
  the players directory is either the file that was there before the run, unchanged, or holds a
  history that is not empty and whose entries are all at most thirty days old.
\<close>

theorem prune_thirty_days:
  "set (vr_history (fst (finalize_player now dateTime discordCache k data0)))
     = {h \<in> set (vr_history data0). le_js (sub (Num now) (dateTime (date h))) (Num thirtyDays)}
   \<and> (\<forall>h \<in> set (vr_history data0). \<forall>t. dateTime (date h) = Num t \<longrightarrow>
         (h \<in> set (vr_history (fst (finalize_player now dateTime discordCache k data0)))
            \<longleftrightarrow> now - t \<le> 30 * (24 * 60 * 60 * 1000)))
   \<and> (\<forall>h \<in> set (vr_history data0). dateTime (date h) = Num (now - thirtyDays) \<longrightarrow>
         h \<in> set (vr_history (fst (finalize_player now dateTime discordCache k data0))))
   \<and> (\<forall>h \<in> set (vr_history data0). \<forall>t. dateTime (date h) = Num t \<and> t < now - thirtyDays \<longrightarrow>
         h \<notin> set (vr_history (fst (finalize_player now dateTime discordCache k data0))))
   \<and> (\<forall>h \<in> set (vr_history data0). dateTime (date h) = NaN \<longrightarrow>
         h \<notin> set (vr_history (fst (finalize_player now dateTime discordCache k data0))))
   \<and> fst (finalize now dateTime discordCache m files)
       = map (\<lambda>(k', d). (k', fst (finalize_player now dateTime discordCache k' d))) m
   \<and> (vr_history (fst (finalize_player now dateTime discordCache k data0)) = [] \<longrightarrow>
         snd (finalize_player now dateTime discordCache k data0) = None)
   \<and> (vr_history (fst (finalize_player now dateTime discordCache k data0)) \<noteq> [] \<longrightarrow>
         snd (finalize_player now dateTime discordCache k data0)
           = Some (safeFC k @ ''.json'', fst (finalize_player now dateTime discordCache k data0)))
   \<and> ((k, data0) \<in> set m
        \<and> vr_history (fst (finalize_player now dateTime discordCache k data0)) \<noteq> [] \<longrightarrow>
         (\<exists>k' d'. (k', d') \<in> set m \<and> safeFC k' = safeFC k
            \<and> vr_history (fst (finalize_player now dateTime discordCache k' d')) \<noteq> []
            \<and> map_of (snd (finalize now dateTime discordCache m files)) (safeFC k @ ''.json'')
                = Some (JsonFile (fst (finalize_player now dateTime discordCache k' d')))))
   \<and> (\<forall>disk'. run toISOString dateTime now srv disk = Inr disk' \<longrightarrow>
         (\<forall>f d. map_of (players_dir disk') f = Some (JsonFile d) \<longrightarrow>
            map_of (players_dir disk) f = Some (JsonFile d)
            \<or> (vr_history d \<noteq> []
                \<and> (\<forall>h \<in> set (vr_history d).
                      le_js (sub (Num now) (dateTime (date h))) (Num thirtyDays)))))"
proof (intro conjI)
  show "set (vr_history (fst (finalize_player now dateTime discordCache k data0)))
     = {h \<in> set (vr_history data0). le_js (sub (Num now) (dateTime (date h))) (Num thirtyDays)}"
    by (rule pruned_set)
  show "\<forall>h \<in> set (vr_history data0). \<forall>t. dateTime (date h) = Num t \<longrightarrow>
         (h \<in> set (vr_history (fst (finalize_player now dateTime discordCache k data0)))
            \<longleftrightarrow> now - t \<le> 30 * (24 * 60 * 60 * 1000))"
    using pruned_iff[of _ data0 dateTime _ now discordCache k]
    by (simp add: thirtyDays_def oneDay_def)
  show "\<forall>h \<in> set (vr_history data0). dateTime (date h) = Num (now - thirtyDays) \<longrightarrow>
         h \<in> set (vr_history (fst (finalize_player now dateTime discordCache k data0)))"
    using pruned_iff[of _ data0 dateTime "now - thirtyDays" now discordCache k] by simp
  show "\<forall>h \<in> set (vr_history data0). \<forall>t. dateTime (date h) = Num t \<and> t < now - thirtyDays \<longrightarrow>
         h \<notin> set (vr_history (fst (finalize_player now dateTime discordCache k data0)))"
    using pruned_iff[of _ data0 dateTime _ now discordCache k] by auto
  show "\<forall>h \<in> set (vr_history data0). dateTime (date h) = NaN \<longrightarrow>
         h \<notin> set (vr_history (fst (finalize_player now dateTime discordCache k data0)))"
    by (simp add: pruned_set)
  show "fst (finalize now dateTime discordCache m files)
       = map (\<lambda>(k', d). (k', fst (finalize_player now dateTime discordCache k' d))) m"
    by (rule fst_finalize)
  show "vr_history (fst (finalize_player now dateTime discordCache k data0)) = [] \<longrightarrow>
         snd (finalize_player now dateTime discordCache k data0) = None"
    using finalize_player_empty[of now dateTime discordCache k data0] by auto
  show "vr_history (fst (finalize_player now dateTime discordCache k data0)) \<noteq> [] \<longrightarrow>
         snd (finalize_player now dateTime discordCache k data0)
           = Some (safeFC k @ ''.json'', fst (finalize_player now dateTime discordCache k data0))"
    using finalize_player_nonempty[of now dateTime discordCache k data0] by blast
  show "(k, data0) \<in> set m
        \<and> vr_history (fst (finalize_player now dateTime discordCache k data0)) \<noteq> [] \<longrightarrow>
         (\<exists>k' d'. (k', d') \<in> set m \<and> safeFC k' = safeFC k
            \<and> vr_history (fst (finalize_player now dateTime discordCache k' d')) \<noteq> []
            \<and> map_of (snd (finalize now dateTime discordCache m files)) (safeFC k @ ''.json'')
                = Some (JsonFile (fst (finalize_player now dateTime discordCache k' d'))))"
    using finalize_files_written[of k data0 m now dateTime discordCache files] by blast
  show "\<forall>disk'. run toISOString dateTime now srv disk = Inr disk' \<longrightarrow>
         (\<forall>f d. map_of (players_dir disk') f = Some (JsonFile d) \<longrightarrow>
            map_of (players_dir disk) f = Some (JsonFile d)
            \<or> (vr_history d \<noteq> []
                \<and> (\<forall>h \<in> set (vr_history d).
                      le_js (sub (Num now) (dateTime (date h))) (Num thirtyDays))))"
  proof (intro allI impI)
    fix disk' f d
    assume r: "run toISOString dateTime now srv disk = Inr disk'"
      and f: "map_of (players_dir disk') f = Some (JsonFile d)"
    from r obtain m where
      d': "players_dir disk' = snd (finalize now dateTime (cacheOf srv) m (players_dir disk))"
      unfolding run_Inr by auto
    from f have "map_of (snd (finalize now dateTime (cacheOf srv) m (players_dir disk))) f
                   = Some (JsonFile d)"
      unfolding d' .
    then have "map_of (players_dir disk) f = Some (JsonFile d)
         \<or> (\<exists>k d0. (k, d0) \<in> set m
               \<and> snd (finalize_player now dateTime (cacheOf srv) k d0)
                   = Some (f, fst (finalize_player now dateTime (cacheOf srv) k d0))
               \<and> JsonFile d = JsonFile (fst (finalize_player now dateTime (cacheOf srv) k d0)))"
      by (rule finalize_files_cases)
    then show "map_of (players_dir disk) f = Some (JsonFile d)
            \<or> (vr_history d \<noteq> []
                \<and> (\<forall>h \<in> set (vr_history d).
                      le_js (sub (Num now) (dateTime (date h))) (Num thirtyDays)))"
    proof
      assume "map_of (players_dir disk) f = Some (JsonFile d)"
      then show ?thesis by simp
    next
      assume "\<exists>k d0. (k, d0) \<in> set m
               \<and> snd (finalize_player now dateTime (cacheOf srv) k d0)
                   = Some (f, fst (finalize_player now dateTime (cacheOf srv) k d0))
               \<and> JsonFile d = JsonFile (fst (finalize_player now dateTime (cacheOf srv) k d0))"
      then obtain k d0 where
        w: "snd (finalize_player now dateTime (cacheOf srv) k d0)
              = Some (f, fst (finalize_player now dateTime (cacheOf srv) k d0))"
        and d: "d = fst (finalize_player now dateTime (cacheOf srv) k d0)"
        by auto
      have ne: "vr_history d \<noteq> []"
        using w finalize_player_empty[of now dateTime "cacheOf srv" k d0] unfolding d by auto
      have "\<forall>h \<in> set (vr_history d). le_js (sub (Num now) (dateTime (date h))) (Num thirtyDays)"
        unfolding d by (simp add: pruned_set)
      then show ?thesis using ne by simp
    qed
  qed
qed


text \<open>
  The theorem at the history with one entry exactly thirty days old, one a millisecond older
  and one of today, and at the history with one entry of forty days: the first keeps the
  boundary entry and drops the older one, in memory and in the file the run writes; the second
  is pruned to nothing and not written.
\<close>

theorem prune_thirty_days_witness:
  "exampleTime ''2024-03-01T00:00:00.000Z'' = Num (exampleNow - thirtyDays)
   \<and> exampleTime ''2024-02-29T23:59:59.999Z'' = Num (exampleNow - thirtyDays - 1)
   \<and> \<lparr>date = ''2024-03-01T00:00:00.000Z'', vrChange = Num 500, totalVR = Num 4500\<rparr>
       \<in> set (vr_history (fst (finalize_player exampleNow exampleTime (cacheOf quietFeed)
                                ''1234-5678-9012'' (playerA boundaryHistory))))
   \<and> \<lparr>date = ''2024-02-29T23:59:59.999Z'', vrChange = Num 0, totalVR = Num 4000\<rparr>
       \<notin> set (vr_history (fst (finalize_player exampleNow exampleTime (cacheOf quietFeed)
                                ''1234-5678-9012'' (playerA boundaryHistory))))
   \<and> fst (finalize exampleNow exampleTime (cacheOf quietFeed)
              [(''1234-5678-9012'', playerA boundaryHistory)] [])
       = [(''1234-5678-9012'',
           fst (finalize_player exampleNow exampleTime (cacheOf quietFeed) ''1234-5678-9012''
                  (playerA boundaryHistory)))]
   \<and> run exampleISO exampleTime exampleNow quietFeed boundaryDisk
       = Inr \<lparr>archive_dir = None,
              players_dir =
                [(''1234-5678-9012.json'',
                  JsonFile
                    \<lparr>name = ''Al'', fc = ''1234-5678-9012'',
                     vr_history =
                       [\<lparr>date = ''2024-03-01T00:00:00.000Z'', vrChange = Num 500, totalVR = Num 4500\<rparr>,
                        \<lparr>date = ''2024-03-31T00:00:00.000Z'', vrChange = Num 500, totalVR = Num 5000\<rparr>],
                     vrStats = Some \<lparr>last24Hours = Num 0, lastWeek = Num 0, lastMonth = Num 500\<rparr>,
                     discord = Some (DStr ''linked:xyz'')\<rparr>)]\<rparr>
   \<and> vr_history (fst (finalize_player exampleNow exampleTime (cacheOf quietFeed) ''1234-5678-9012''
                     (playerA staleHistory))) = []
   \<and> snd (finalize_player exampleNow exampleTime (cacheOf quietFeed) ''1234-5678-9012''
            (playerA staleHistory)) = None"
proof -
  let ?old = "\<lparr>date = ''2024-02-29T23:59:59.999Z'', vrChange = Num 0, totalVR = Num 4000\<rparr>"
  let ?edge = "\<lparr>date = ''2024-03-01T00:00:00.000Z'', vrChange = Num 500, totalVR = Num 4500\<rparr>"
  have t: "exampleTime ''2024-03-01T00:00:00.000Z'' = Num (exampleNow - thirtyDays)"
    "exampleTime ''2024-02-29T23:59:59.999Z'' = Num (exampleNow - thirtyDays - 1)"
    by (simp_all add: exampleTime_def exampleNow_def thirtyDays_def oneDay_def)
  have mem: "?edge \<in> set (vr_history (playerA boundaryHistory))"
    "?old \<in> set (vr_history (playerA boundaryHistory))"
    by (simp_all add: playerA_def boundaryHistory_def)
  have r: "run exampleISO exampleTime exampleNow quietFeed boundaryDisk
       = Inr \<lparr>archive_dir = None,
              players_dir =
                [(''1234-5678-9012.json'',
                  JsonFile
                    \<lparr>name = ''Al'', fc = ''1234-5678-9012'',
                     vr_history =
                       [?edge,
                        \<lparr>date = ''2024-03-31T00:00:00.000Z'', vrChange = Num 500, totalVR = Num 5000\<rparr>],
                     vrStats = Some \<lparr>last24Hours = Num 0, lastWeek = Num 0, lastMonth = Num 500\<rparr>,
                     discord = Some (DStr ''linked:xyz'')\<rparr>)]\<rparr>"
    by code_simp
  have e: "vr_history (fst (finalize_player exampleNow exampleTime (cacheOf quietFeed) ''1234-5678-9012''
                     (playerA staleHistory))) = []"
    by code_simp
  note rule = prune_thirty_days [of exampleNow exampleTime "cacheOf quietFeed" "''1234-5678-9012''"
      "playerA boundaryHistory" "[(''1234-5678-9012'', playerA boundaryHistory)]" "[]"
      exampleISO quietFeed boundaryDisk]
  note rule2 = prune_thirty_days [of exampleNow exampleTime "cacheOf quietFeed" "''1234-5678-9012''"
      "playerA staleHistory" "[]" "[]" exampleISO quietFeed staleDisk]
  have keep: "\<forall>h\<in>set (vr_history (playerA boundaryHistory)).
          exampleTime (date h) = Num (exampleNow - thirtyDays) \<longrightarrow>
          h \<in> set (vr_history (fst (finalize_player exampleNow exampleTime (cacheOf quietFeed)
                                ''1234-5678-9012'' (playerA boundaryHistory))))"
    using rule by blast
  have drop: "\<forall>h\<in>set (vr_history (playerA boundaryHistory)).
          (\<exists>t. exampleTime (date h) = Num t \<and> t < exampleNow - thirtyDays) \<longrightarrow>
          h \<notin> set (vr_history (fst (finalize_player exampleNow exampleTime (cacheOf quietFeed)
                                ''1234-5678-9012'' (playerA boundaryHistory))))"
    using rule by blast
  have a: "?edge \<in> set (vr_history (fst (finalize_player exampleNow exampleTime (cacheOf quietFeed)
                                ''1234-5678-9012'' (playerA boundaryHistory))))"
    by (rule keep [rule_format, OF mem(1)]) (simp add: t(1))
  have b: "?old \<notin> set (vr_history (fst (finalize_player exampleNow exampleTime (cacheOf quietFeed)
                                ''1234-5678-9012'' (playerA boundaryHistory))))"
    by (rule drop [rule_format, OF mem(2)]) (simp add: t(2))
  have "fst (finalize exampleNow exampleTime (cacheOf quietFeed)
              [(''1234-5678-9012'', playerA boundaryHistory)] [])
       = map (\<lambda>(k', d). (k', fst (finalize_player exampleNow exampleTime (cacheOf quietFeed) k' d)))
           [(''1234-5678-9012'', playerA boundaryHistory)]"
    using rule by blast
  then have c: "fst (finalize exampleNow exampleTime (cacheOf quietFeed)
              [(''1234-5678-9012'', playerA boundaryHistory)] [])
       = [(''1234-5678-9012'',
           fst (finalize_player exampleNow exampleTime (cacheOf quietFeed) ''1234-5678-9012''
                  (playerA boundaryHistory)))]"
    by simp
  have "vr_history (fst (finalize_player exampleNow exampleTime (cacheOf quietFeed) ''1234-5678-9012''
                     (playerA staleHistory))) = [] \<longrightarrow>
        snd (finalize_player exampleNow exampleTime (cacheOf quietFeed) ''1234-5678-9012''
            (playerA staleHistory)) = None"
    using rule2 by blast
  with e have d: "snd (finalize_player exampleNow exampleTime (cacheOf quietFeed) ''1234-5678-9012''
            (playerA staleHistory)) = None"
    by blast
  show ?thesis using t a b c r e d by blast
qed

text \<open>
  Where the stored history is not pruned: the file of a player whose entries are all older than
  thirty days. The run prunes the history in memory to nothing and therefore skips the player,
  so the file is left as it was: after the run it still holds the entry of forty days ago.
\<close>

theorem prune_stored_counterexample:
  "exampleTime ''2024-02-20T00:00:00.000Z'' = Num (exampleNow - 40 * oneDay)
   \<and> map_of (players_dir staleDisk) ''1234-5678-9012.json'' = Some (JsonFile (playerA staleHistory))
   \<and> vr_history (playerA staleHistory)
       = [\<lparr>date = ''2024-02-20T00:00:00.000Z'', vrChange = Num 0, totalVR = Num 5000\<rparr>]
   \<and> run exampleISO exampleTime exampleNow quietFeed staleDisk = Inr staleDisk"
proof -
  have "run exampleISO exampleTime exampleNow quietFeed staleDisk = Inr staleDisk"
    by code_simp
  then show ?thesis
    by (simp add: exampleTime_def exampleNow_def oneDay_def staleDisk_def playerA_def staleHistory_def)
qed

section \<open>Players whose history prunes to nothing\<close>






section \<open>Discord sync\<close>

text \<open>
  C8, as the code has it. The merge itself: with no cache entry, or with the empty string in
  the cache, the stored value is left as it is, \<open>unknown\<close> if it was unset or empty; with
  the cache value \<open>not_linked\<close> the stored value becomes \<open>not_linked\<close> when it was unset,
  empty, \<open>unknown\<close> or \<open>not_linked\<close>, and is unchanged otherwise; with any other non-empty
  string in the cache the stored value becomes that string, and an inherited member found by
  the lookup is stored as well. The loop applies the merge to a record whose pruned history is
  not empty, and leaves the discord field of a record whose pruned history is empty as it was.
  The lookup \<open>discordCache[fc]\<close> gives the cache's own entry for a key that names no member
  of \<open>Object.prototype\<close>; for a key that names one, it gives the own entry when there is one
  and the inherited member otherwise. The map after the loop holds for every key the record
  after its turn.
\<close>

theorem discord_merge:
  "discordSync None d = (if d = None \<or> d = Some (DStr []) then Some (DStr ''unknown'') else d)
   \<and> discordSync (Some (DStr [])) d = discordSync None d
   \<and> discordSync (Some (DStr ''not_linked'')) d
       = (if d = None \<or> d = Some (DStr []) \<or> d = Some (DStr ''unknown'')
             \<or> d = Some (DStr ''not_linked'')
          then Some (DStr ''not_linked'') else d)
   \<and> (c \<noteq> [] \<and> c \<noteq> ''not_linked'' \<longrightarrow> discordSync (Some (DStr c)) d = Some (DStr c))
   \<and> discordSync (Some (DMember n)) d = Some (DMember n)
   \<and> (vr_history (fst (finalize_player now dateTime discordCache k data0)) \<noteq> [] \<longrightarrow>
        discord (fst (finalize_player now dateTime discordCache k data0))
          = discordSync (discordCache k) (discord data0))
   \<and> (vr_history (fst (finalize_player now dateTime discordCache k data0)) = [] \<longrightarrow>
        discord (fst (finalize_player now dateTime discordCache k data0)) = discord data0)
   \<and> (k \<notin> set protoNames \<longrightarrow> cacheGet own k = map_option DStr (own k))
   \<and> (k \<in> set protoNames \<longrightarrow>
        cacheGet own k = (case own k of Some v \<Rightarrow> Some (DStr v) | None \<Rightarrow> Some (DMember k)))
   \<and> fst (finalize now dateTime discordCache m files)
       = map (\<lambda>(k', d). (k', fst (finalize_player now dateTime discordCache k' d))) m"
proof (intro conjI)
  show "discordSync None d = (if d = None \<or> d = Some (DStr []) then Some (DStr ''unknown'') else d)"
    by (simp add: discordSync_def)
  show "discordSync (Some (DStr [])) d = discordSync None d"
    by (simp add: discordSync_def)
  show "discordSync (Some (DStr ''not_linked'')) d
       = (if d = None \<or> d = Some (DStr []) \<or> d = Some (DStr ''unknown'')
             \<or> d = Some (DStr ''not_linked'')
          then Some (DStr ''not_linked'') else d)"
    by (auto simp: discordSync_def)
  show "c \<noteq> [] \<and> c \<noteq> ''not_linked'' \<longrightarrow> discordSync (Some (DStr c)) d = Some (DStr c)"
    by (simp add: discordSync_def)
  show "discordSync (Some (DMember n)) d = Some (DMember n)"
    by (simp add: discordSync_def)
  show "vr_history (fst (finalize_player now dateTime discordCache k data0)) \<noteq> [] \<longrightarrow>
        discord (fst (finalize_player now dateTime discordCache k data0))
          = discordSync (discordCache k) (discord data0)"
    using finalize_player_discord[of now dateTime discordCache k data0] by blast
  show "vr_history (fst (finalize_player now dateTime discordCache k data0)) = [] \<longrightarrow>
        discord (fst (finalize_player now dateTime discordCache k data0)) = discord data0"
    using finalize_player_empty[of now dateTime discordCache k data0] by auto
  show "k \<notin> set protoNames \<longrightarrow> cacheGet own k = map_option DStr (own k)"
    by (simp add: cacheGet_def split: option.splits)
  show "k \<in> set protoNames \<longrightarrow>
        cacheGet own k = (case own k of Some v \<Rightarrow> Some (DStr v) | None \<Rightarrow> Some (DMember k))"
    by (simp add: cacheGet_def split: option.splits)
  show "fst (finalize now dateTime discordCache m files)
       = map (\<lambda>(k', d). (k', fst (finalize_player now dateTime discordCache k' d))) m"
    by (rule fst_finalize)
qed


text \<open>
  The cases on the values of the specification; the sync inside the loop for a record with a
  recent history, and its absence for a record with a stale one; the lookup for a friend code
  and for the key \<open>constructor\<close>.
\<close>

theorem discord_merge_witness:
  "discordSync (Some (DStr ''not_linked'')) (Some (DStr ''unknown'')) = Some (DStr ''not_linked'')
   \<and> discordSync (Some (DStr ''not_linked'')) (Some (DStr ''linked:abc'')) = Some (DStr ''linked:abc'')
   \<and> discordSync (Some (DStr ''linked:xyz'')) (Some (DStr ''linked:abc'')) = Some (DStr ''linked:xyz'')
   \<and> discordSync None None = Some (DStr ''unknown'')
   \<and> discordSync None (Some (DStr ''linked:abc'')) = Some (DStr ''linked:abc'')
   \<and> ''1234-5678-9012'' \<notin> set protoNames
   \<and> cacheOf quietFeed ''1234-5678-9012'' = Some (DStr ''linked:xyz'')
   \<and> vr_history (fst (finalize_player exampleNow exampleTime (cacheOf quietFeed)
                       ''1234-5678-9012'' (playerA liveHistory))) = liveHistory
   \<and> discord (playerA liveHistory) = Some (DStr ''unknown'')
   \<and> discord (fst (finalize_player exampleNow exampleTime (cacheOf quietFeed)
                       ''1234-5678-9012'' (playerA liveHistory))) = Some (DStr ''linked:xyz'')
   \<and> vr_history (fst (finalize_player exampleNow exampleTime (cacheOf quietFeed)
                       ''1234-5678-9012'' (playerA staleHistory))) = []
   \<and> discord (fst (finalize_player exampleNow exampleTime (cacheOf quietFeed)
                       ''1234-5678-9012'' (playerA staleHistory))) = Some (DStr ''unknown'')
   \<and> ''constructor'' \<in> set protoNames
   \<and> cacheOf quietFeed ''constructor'' = Some (DMember ''constructor'')"
proof -
  let ?own = "[''1234-5678-9012'' \<mapsto> ''linked:xyz'']"
  have co: "cacheOf quietFeed = cacheGet ?own"
    by (simp add: cacheOf_def quietFeed_def)
  have l: "vr_history (fst (finalize_player exampleNow exampleTime (cacheOf quietFeed)
                       ''1234-5678-9012'' (playerA liveHistory))) = liveHistory"
    by code_simp
  have ne: "liveHistory \<noteq> []" by (simp add: liveHistory_def)
  have e: "vr_history (fst (finalize_player exampleNow exampleTime (cacheOf quietFeed)
                       ''1234-5678-9012'' (playerA staleHistory))) = []"
    by code_simp
  have np: "''1234-5678-9012'' \<notin> set protoNames" by (simp add: protoNames_def)
  have ip: "''constructor'' \<in> set protoNames" by (simp add: protoNames_def)
  have dl: "discord (playerA liveHistory) = Some (DStr ''unknown'')"
    and ds: "discord (playerA staleHistory) = Some (DStr ''unknown'')"
    by (simp_all add: playerA_def)
  note r1 = discord_merge [of "Some (DStr ''unknown'')" "''linked:xyz''" "''constructor''"
      exampleNow exampleTime "cacheOf quietFeed" "''1234-5678-9012''" "playerA liveHistory"
      ?own "[]" "[]"]
  note r2 = discord_merge [of "Some (DStr ''linked:abc'')" "''linked:xyz''" "''constructor''"
      exampleNow exampleTime "cacheOf quietFeed" "''1234-5678-9012''" "playerA staleHistory"
      ?own "[]" "[]"]
  note r3 = discord_merge [of "None" "''linked:xyz''" "''constructor''"
      exampleNow exampleTime "cacheOf quietFeed" "''constructor''" "playerA staleHistory"
      ?own "[]" "[]"]
  have s1: "discordSync (Some (DStr ''not_linked'')) (Some (DStr ''unknown'')) = Some (DStr ''not_linked'')"
    using r1 by simp
  have s2: "discordSync (Some (DStr ''not_linked'')) (Some (DStr ''linked:abc'')) = Some (DStr ''linked:abc'')"
    using r2 by simp
  have "''linked:xyz'' \<noteq> [] \<and> ''linked:xyz'' \<noteq> ''not_linked''
          \<longrightarrow> discordSync (Some (DStr ''linked:xyz'')) (Some (DStr ''linked:abc'')) = Some (DStr ''linked:xyz'')"
    using r2 by blast
  then have s3: "discordSync (Some (DStr ''linked:xyz'')) (Some (DStr ''linked:abc'')) = Some (DStr ''linked:xyz'')"
    by simp
  have "''linked:xyz'' \<noteq> [] \<and> ''linked:xyz'' \<noteq> ''not_linked''
          \<longrightarrow> discordSync (Some (DStr ''linked:xyz'')) (Some (DStr ''unknown'')) = Some (DStr ''linked:xyz'')"
    using r1 by blast
  then have s3': "discordSync (Some (DStr ''linked:xyz'')) (Some (DStr ''unknown'')) = Some (DStr ''linked:xyz'')"
    by simp
  have s4: "discordSync None None = Some (DStr ''unknown'')"
    using r3 by simp
  have s5: "discordSync None (Some (DStr ''linked:abc'')) = Some (DStr ''linked:abc'')"
    using r2 by simp
  have "''1234-5678-9012'' \<notin> set protoNames
          \<longrightarrow> cacheGet ?own ''1234-5678-9012'' = map_option DStr (?own ''1234-5678-9012'')"
    using r1 by blast
  with np co have c1: "cacheOf quietFeed ''1234-5678-9012'' = Some (DStr ''linked:xyz'')"
    by simp
  have "''constructor'' \<in> set protoNames \<longrightarrow>
        cacheGet ?own ''constructor''
          = (case ?own ''constructor'' of Some v \<Rightarrow> Some (DStr v)
             | None \<Rightarrow> Some (DMember ''constructor''))"
    using r3 by blast
  with ip co have c2: "cacheOf quietFeed ''constructor'' = Some (DMember ''constructor'')"
    by simp
  have "vr_history (fst (finalize_player exampleNow exampleTime (cacheOf quietFeed)
                       ''1234-5678-9012'' (playerA liveHistory))) \<noteq> [] \<longrightarrow>
        discord (fst (finalize_player exampleNow exampleTime (cacheOf quietFeed)
                       ''1234-5678-9012'' (playerA liveHistory)))
          = discordSync (cacheOf quietFeed ''1234-5678-9012'') (discord (playerA liveHistory))"
    using r1 by blast
  with l ne c1 dl s3' have f1: "discord (fst (finalize_player exampleNow exampleTime (cacheOf quietFeed)
                       ''1234-5678-9012'' (playerA liveHistory))) = Some (DStr ''linked:xyz'')"
    by simp
  have "vr_history (fst (finalize_player exampleNow exampleTime (cacheOf quietFeed)
                       ''1234-5678-9012'' (playerA staleHistory))) = [] \<longrightarrow>
        discord (fst (finalize_player exampleNow exampleTime (cacheOf quietFeed)
                       ''1234-5678-9012'' (playerA staleHistory))) = discord (playerA staleHistory)"
    using r2 by blast
  with e ds have f2: "discord (fst (finalize_player exampleNow exampleTime (cacheOf quietFeed)
                       ''1234-5678-9012'' (playerA staleHistory))) = Some (DStr ''unknown'')"
    by simp
  show ?thesis using s1 s2 s3 s4 s5 np c1 l dl f1 e f2 ip c2 by blast
qed


text \<open>
  C8 as stated, for every player, fails: the cache holds a profile id for a player whose
  history prunes to nothing, and the stored value stays \<open>unknown\<close>, in memory and in the file
  after the run; and the unset discord field of such a player with no cache entry stays unset.
\<close>

theorem discord_merge_counterexample:
  "cacheOf quietFeed ''1234-5678-9012'' = Some (DStr ''linked:xyz'')
   \<and> discord (playerA staleHistory) = Some (DStr ''unknown'')
   \<and> discord (fst (finalize_player exampleNow exampleTime (cacheOf quietFeed)
                       ''1234-5678-9012'' (playerA staleHistory))) = Some (DStr ''unknown'')
   \<and> cacheOf quietFeed ''0000-0000-0000'' = None
   \<and> discord (fst (finalize_player exampleNow exampleTime (cacheOf quietFeed)
                       ''0000-0000-0000'' ((playerA staleHistory)\<lparr>discord := None\<rparr>))) = None
   \<and> run exampleISO exampleTime exampleNow quietFeed staleDisk = Inr staleDisk
   \<and> map_of (players_dir staleDisk) ''1234-5678-9012.json''
       = Some (JsonFile (playerA staleHistory))"
proof -
  have a: "cacheOf quietFeed ''1234-5678-9012'' = Some (DStr ''linked:xyz'')" by code_simp
  have b: "discord (playerA staleHistory) = Some (DStr ''unknown'')" by (simp add: playerA_def)
  have c: "discord (fst (finalize_player exampleNow exampleTime (cacheOf quietFeed)
                       ''1234-5678-9012'' (playerA staleHistory))) = Some (DStr ''unknown'')"
    by code_simp
  have d: "cacheOf quietFeed ''0000-0000-0000'' = None" by code_simp
  have e: "discord (fst (finalize_player exampleNow exampleTime (cacheOf quietFeed)
                       ''0000-0000-0000'' ((playerA staleHistory)\<lparr>discord := None\<rparr>))) = None"
    by code_simp
  have f: "run exampleISO exampleTime exampleNow quietFeed staleDisk = Inr staleDisk"
    by code_simp
  have g: "map_of (players_dir staleDisk) ''1234-5678-9012.json''
       = Some (JsonFile (playerA staleHistory))"
    by (simp add: staleDisk_def)
  show ?thesis using a b c d e f g by blast
qed

section \<open>The rating read from a raw record\<close>






section \<open>The first entry of a history\<close>

text \<open>
  C2, as the code has it: in every history that the live fold or the backfill fold
  builds from an empty \<open>playerMap\<close> there is a first entry, and its \<open>vrChange\<close> is
  \<open>currentVR - currentVR\<close>: \<open>0\<close> when the rating is a finite number, \<open>NaN\<close> when it is \<open>NaN\<close>
  or infinite. So \<open>vrChange\<close> and \<open>totalVR\<close> of the first entry are the same value exactly
  when the first rating is \<open>0\<close> or \<open>NaN\<close>.
\<close>

theorem first_entry_delta:
  "(\<forall>m. processLive toISOString [] cfHistoryRows = Inr m \<longrightarrow>
      (\<forall>(k, pl) \<in> set m.
         vr_history pl \<noteq> []
         \<and> vrChange (vr_history pl ! 0)
             = sub (totalVR (vr_history pl ! 0)) (totalVR (vr_history pl ! 0))
         \<and> vrChange (vr_history pl ! 0)
             = (case totalVR (vr_history pl ! 0) of Num t \<Rightarrow> Num 0 | _ \<Rightarrow> NaN)
         \<and> (vrChange (vr_history pl ! 0) = totalVR (vr_history pl ! 0)
              \<longleftrightarrow> totalVR (vr_history pl ! 0) = Num 0 \<or> totalVR (vr_history pl ! 0) = NaN)))
   \<and> (\<forall>(k, pl) \<in> set (buildHistory dateTime snapshotMap).
         vr_history pl \<noteq> []
         \<and> vrChange (vr_history pl ! 0)
             = sub (totalVR (vr_history pl ! 0)) (totalVR (vr_history pl ! 0))
         \<and> vrChange (vr_history pl ! 0)
             = (case totalVR (vr_history pl ! 0) of Num t \<Rightarrow> Num 0 | _ \<Rightarrow> NaN)
         \<and> (vrChange (vr_history pl ! 0) = totalVR (vr_history pl ! 0)
              \<longleftrightarrow> totalVR (vr_history pl ! 0) = Num 0 \<or> totalVR (vr_history pl ! 0) = NaN))"
proof (intro conjI allI impI)
  fix m assume run: "processLive toISOString [] cfHistoryRows = Inr m"
  have "\<forall>(k, pl) \<in> set m.
         vr_history pl \<noteq> []
         \<and> vrChange (vr_history pl ! 0)
             = sub (totalVR (vr_history pl ! 0)) (totalVR (vr_history pl ! 0))"
    by (rule live_rows_pres[where m = "[]"
          and P = "\<lambda>h. h \<noteq> [] \<and> vrChange (h ! 0) = sub (totalVR (h ! 0)) (totalVR (h ! 0))",
          OF _ first_entry_single first_entry_append run[unfolded processLive_def]])
       simp_all
  then show "\<forall>(k, pl) \<in> set m.
         vr_history pl \<noteq> []
         \<and> vrChange (vr_history pl ! 0)
             = sub (totalVR (vr_history pl ! 0)) (totalVR (vr_history pl ! 0))
         \<and> vrChange (vr_history pl ! 0)
             = (case totalVR (vr_history pl ! 0) of Num t \<Rightarrow> Num 0 | _ \<Rightarrow> NaN)
         \<and> (vrChange (vr_history pl ! 0) = totalVR (vr_history pl ! 0)
              \<longleftrightarrow> totalVR (vr_history pl ! 0) = Num 0 \<or> totalVR (vr_history pl ! 0) = NaN)"
    using first_entry_values by fast
next
  have "\<forall>(k, pl) \<in> set (buildHistory dateTime snapshotMap).
         vr_history pl \<noteq> []
         \<and> vrChange (vr_history pl ! 0)
             = sub (totalVR (vr_history pl ! 0)) (totalVR (vr_history pl ! 0))"
    by (rule buildHistory_pres[where
          P = "\<lambda>h. h \<noteq> [] \<and> vrChange (h ! 0) = sub (totalVR (h ! 0)) (totalVR (h ! 0))",
          OF first_entry_single first_entry_append])
       simp_all
  then show "\<forall>(k, pl) \<in> set (buildHistory dateTime snapshotMap).
         vr_history pl \<noteq> []
         \<and> vrChange (vr_history pl ! 0)
             = sub (totalVR (vr_history pl ! 0)) (totalVR (vr_history pl ! 0))
         \<and> vrChange (vr_history pl ! 0)
             = (case totalVR (vr_history pl ! 0) of Num t \<Rightarrow> Num 0 | _ \<Rightarrow> NaN)
         \<and> (vrChange (vr_history pl ! 0) = totalVR (vr_history pl ! 0)
              \<longleftrightarrow> totalVR (vr_history pl ! 0) = Num 0 \<or> totalVR (vr_history pl ! 0) = NaN)"
    using first_entry_values by fast
qed


text \<open>
  The first entries of the two example histories: a delta of \<open>0\<close> at a total of \<open>5000\<close>, which
  differ, and a delta of \<open>0\<close> at a total of \<open>0\<close>; a first rating that is no number, stored
  with \<open>NaN\<close> twice; and a rating of 309 digits, which is read as \<open>Infinity\<close>.
\<close>

theorem first_entry_delta_witness:
  "buildHistory exampleTime exampleSnapshots
     = [(''1234-5678-9012'', \<lparr>name = ''Al'', fc = ''1234-5678-9012'', vr_history = backfillHistory,
                               vrStats = None, discord = None\<rparr>)]
   \<and> totalVR (backfillHistory ! 0) = Num 5000
   \<and> vrChange (backfillHistory ! 0) = Num 0
   \<and> vrChange (backfillHistory ! 0) \<noteq> totalVR (backfillHistory ! 0)
   \<and> processLive exampleISO [] exampleRows
     = Inr [(''1234-5678-9012'', \<lparr>name = ''Al'', fc = ''1234-5678-9012'', vr_history = liveHistory,
                                   vrStats = None, discord = Some (DStr ''unknown'')\<rparr>)]
   \<and> totalVR (liveHistory ! 0) = Num 0
   \<and> vrChange (liveHistory ! 0) = totalVR (liveHistory ! 0)
   \<and> processLive exampleISO [] [\<lparr>timestamp = 1711843200, data = DataArray [\<lparr>p_fc = Some ''1234-5678-9012'', p_name = Some ''Al'', p_ev = JStr ''abc'', p_vr = JUndefined\<rparr>]\<rparr>]
     = Inr [(''1234-5678-9012'',
             \<lparr>name = ''Al'', fc = ''1234-5678-9012'',
              vr_history = [\<lparr>date = ''2024-03-31T00:00:00.000Z'', vrChange = NaN, totalVR = NaN\<rparr>],
              vrStats = None, discord = Some (DStr ''unknown'')\<rparr>)]
   \<and> sub NaN NaN = NaN
   \<and> sub PosInf PosInf = NaN
   \<and> parseInt (JStr (replicate 309 (CHR ''9''))) = PosInf"
proof -
  have bf_eq: "buildHistory exampleTime exampleSnapshots
     = [(''1234-5678-9012'', \<lparr>name = ''Al'', fc = ''1234-5678-9012'', vr_history = backfillHistory,
                               vrStats = None, discord = None\<rparr>)]"
    by code_simp
  have live_eq: "processLive exampleISO [] exampleRows
     = Inr [(''1234-5678-9012'', \<lparr>name = ''Al'', fc = ''1234-5678-9012'', vr_history = liveHistory,
                                   vrStats = None, discord = Some (DStr ''unknown'')\<rparr>)]"
    by code_simp
  have nan_eq: "processLive exampleISO [] [\<lparr>timestamp = 1711843200, data = DataArray [\<lparr>p_fc = Some ''1234-5678-9012'', p_name = Some ''Al'', p_ev = JStr ''abc'', p_vr = JUndefined\<rparr>]\<rparr>]
     = Inr [(''1234-5678-9012'',
             \<lparr>name = ''Al'', fc = ''1234-5678-9012'',
              vr_history = [\<lparr>date = ''2024-03-31T00:00:00.000Z'', vrChange = NaN, totalVR = NaN\<rparr>],
              vrStats = None, discord = Some (DStr ''unknown'')\<rparr>)]"
    by code_simp
  have inf: "parseInt (JStr (replicate 309 (CHR ''9''))) = PosInf"
    by code_simp
  have t0: "totalVR (backfillHistory ! 0) = Num 5000" and t1: "totalVR (liveHistory ! 0) = Num 0"
    by (simp_all add: backfillHistory_def liveHistory_def)
  note rule = first_entry_delta [of exampleISO exampleRows exampleTime exampleSnapshots]
  have "\<forall>(k, pl) \<in> set (buildHistory exampleTime exampleSnapshots).
          vrChange (vr_history pl ! 0)
            = (case totalVR (vr_history pl ! 0) of Num t \<Rightarrow> Num 0 | _ \<Rightarrow> NaN)"
    using rule by fast
  then have b: "vrChange (backfillHistory ! 0) = Num 0"
    unfolding bf_eq using t0 by simp
  have "\<forall>m. processLive exampleISO [] exampleRows = Inr m \<longrightarrow>
          (\<forall>(k, pl) \<in> set m.
             vrChange (vr_history pl ! 0)
               = (case totalVR (vr_history pl ! 0) of Num t \<Rightarrow> Num 0 | _ \<Rightarrow> NaN))"
    using rule by fast
  with live_eq have l: "vrChange (liveHistory ! 0) = Num 0"
    using t1 by simp
  show ?thesis using bf_eq live_eq nan_eq inf t0 t1 b l by simp
qed


text \<open>
  C2 as stated fails: a first rating of \<open>5000\<close> is stored with \<open>vrChange = 0\<close>, in the
  backfill fold and in the live fold.
\<close>

theorem first_entry_counterexample:
  "buildHistory exampleTime exampleSnapshots
     = [(''1234-5678-9012'', \<lparr>name = ''Al'', fc = ''1234-5678-9012'', vr_history = backfillHistory,
                               vrStats = None, discord = None\<rparr>)]
   \<and> vrChange (backfillHistory ! 0) \<noteq> totalVR (backfillHistory ! 0)
   \<and> processLive exampleISO [] [\<lparr>timestamp = 1711843200, data = DataArray [rawA 5000]\<rparr>]
     = Inr [(''1234-5678-9012'',
             \<lparr>name = ''Al'', fc = ''1234-5678-9012'',
              vr_history = [\<lparr>date = ''2024-03-31T00:00:00.000Z'', vrChange = Num 0, totalVR = Num 5000\<rparr>],
              vrStats = None, discord = Some (DStr ''unknown'')\<rparr>)]"
proof -
  have "buildHistory exampleTime exampleSnapshots
     = [(''1234-5678-9012'', \<lparr>name = ''Al'', fc = ''1234-5678-9012'', vr_history = backfillHistory,
                               vrStats = None, discord = None\<rparr>)]"
    by code_simp
  moreover have "processLive exampleISO [] [\<lparr>timestamp = 1711843200, data = DataArray [rawA 5000]\<rparr>]
     = Inr [(''1234-5678-9012'',
             \<lparr>name = ''Al'', fc = ''1234-5678-9012'',
              vr_history = [\<lparr>date = ''2024-03-31T00:00:00.000Z'', vrChange = Num 0, totalVR = Num 5000\<rparr>],
              vrStats = None, discord = Some (DStr ''unknown'')\<rparr>)]"
    by code_simp
  moreover have "vrChange (backfillHistory ! 0) \<noteq> totalVR (backfillHistory ! 0)"
    by (simp add: backfillHistory_def)
  ultimately show ?thesis by simp
qed

end
